theory Spec2Isabelle
  imports Complex_Main
begin

section \<open>Python values, numpy arrays and errors\<close>

text \<open>
  The two modules build numpy matrices and cvxpy problems and hand the problems to a
  solver. Exceptions are values: a function that can raise returns \<open>error + 'a\<close>,
  with \<open>Inl\<close> the exception. Finite floating-point numbers are read as the real
  numbers they denote (rounding is not modelled); the value a solved problem reports
  can also be infinite or not a number, so it has a type of its own. The coefficient
  arrays of \<^verbatim>\<open>bell_inequality_max\<close> enter scalar arithmetic, which numpy does in the
  dtype of the arrays: their entries are numpy scalars, of dtype \<^verbatim>\<open>int64\<close> (numpy's
  default for Python integers, as in the docstring's example) or \<^verbatim>\<open>float64\<close>.
\<close>

datatype error = ValueError string | IndexError

datatype pyfloat = Finite real | PosInf | NegInf | NaN

text \<open>The comparison \<^verbatim>\<open>u < v\<close> of two Python floats.\<close>

fun float_lt :: "pyfloat \<Rightarrow> pyfloat \<Rightarrow> bool" where
  "float_lt (Finite x) (Finite y) = (x < y)"
| "float_lt (Finite x) PosInf = True"
| "float_lt NegInf (Finite y) = True"
| "float_lt NegInf PosInf = True"
| "float_lt u v = False"

text \<open>
  A two-dimensional \<^verbatim>\<open>np.ndarray\<close>: its shape and its entries. Only the entries
  \<open>item A i j\<close> with \<open>i < nrows A\<close> and \<open>j < ncols A\<close> belong to the array. An
  \<open>ndarray\<close> is an array whose entries are only compared, copied or combined in float
  arithmetic: the matrix given to \<^verbatim>\<open>positive_semidefinite_rank\<close> and every matrix the
  code builds.
\<close>

record 'a nparray =
  nrows :: nat
  ncols :: nat
  item :: "nat \<Rightarrow> nat \<Rightarrow> 'a"

type_synonym ndarray = "real nparray"

text \<open>
  A numpy scalar of dtype \<^verbatim>\<open>int64\<close> or \<^verbatim>\<open>float64\<close>, and the products and sums of two
  scalars: two integers give an integer that wraps around at 64 bits (numpy warns and
  goes on), an integer and a float give a float. \<open>to_float\<close> is the conversion numpy
  makes when a scalar multiplies a float array. An \<^verbatim>\<open>int64\<close> entry of an array lies in
  the 64-bit range; the results of \<open>np_mul\<close> and \<open>np_plus\<close> do. Other dtypes (narrower
  integers, unsigned integers, \<^verbatim>\<open>float32\<close>, complex) are not modelled.
\<close>

datatype npnum = Int64 int | Float64 real

definition wrap64 :: "int \<Rightarrow> int" where
  "wrap64 n = (n + 2 ^ 63) mod 2 ^ 64 - 2 ^ 63"

fun np_mul :: "npnum \<Rightarrow> npnum \<Rightarrow> npnum" where
  "np_mul (Int64 a) (Int64 b) = Int64 (wrap64 (a * b))"
| "np_mul (Int64 a) (Float64 y) = Float64 (real_of_int a * y)"
| "np_mul (Float64 x) (Int64 b) = Float64 (x * real_of_int b)"
| "np_mul (Float64 x) (Float64 y) = Float64 (x * y)"

fun np_plus :: "npnum \<Rightarrow> npnum \<Rightarrow> npnum" where
  "np_plus (Int64 a) (Int64 b) = Int64 (wrap64 (a + b))"
| "np_plus (Int64 a) (Float64 y) = Float64 (real_of_int a + y)"
| "np_plus (Float64 x) (Int64 b) = Float64 (x + real_of_int b)"
| "np_plus (Float64 x) (Float64 y) = Float64 (x + y)"

fun to_float :: "npnum \<Rightarrow> real" where
  "to_float (Int64 a) = real_of_int a"
| "to_float (Float64 x) = x"

type_synonym coe_matrix = "npnum nparray"

type_synonym coe_vector = "npnum list"

text \<open>\<^verbatim>\<open>np.all(mat >= 0)\<close>\<close>

definition np_all_nonneg :: "ndarray \<Rightarrow> bool" where
  "np_all_nonneg mat =
     list_all (\<lambda>i. list_all (\<lambda>j. 0 \<le> item mat i j) [0..<ncols mat]) [0..<nrows mat]"

text \<open>
  Modelled from the spec: \<^verbatim>\<open>toqito.matrix_props.is_square\<close> is imported by
  \<^verbatim>\<open>positive_semidefinite_rank.py\<close> and is not among the sources. The spec calls it
  the "square-shape check, used as a precondition gate before PSD-rank search".
\<close>

definition is_square :: "ndarray \<Rightarrow> bool" where
  "is_square mat = (nrows mat = ncols mat)"

text \<open>A \<^verbatim>\<open>for\<close> loop over a list of indices whose body can raise.\<close>

fun for_each :: "'i list \<Rightarrow> ('i \<Rightarrow> 's \<Rightarrow> error + 's) \<Rightarrow> 's \<Rightarrow> error + 's" where
  "for_each [] body s = Inr s"
| "for_each (i # is) body s =
     (case body i s of Inl e \<Rightarrow> Inl e | Inr s' \<Rightarrow> for_each is body s')"

section \<open>cvxpy problems and the solver\<close>

text \<open>
  A cvxpy expression is data: the code builds it and never looks inside. The calls of
  \<^verbatim>\<open>swap\<close> and \<^verbatim>\<open>partial_transpose\<close> on a cvxpy variable are recorded with their
  arguments as they are written in the source.
\<close>

datatype expr =
    Variable nat nat bool
  | Constant ndarray
  | Scalar real
  | Index expr nat nat
  | Bmat "expr list list"
  | Kron expr expr
  | MatMul expr expr
  | Trace expr
  | NormNuc expr
  | SumEntries expr
  | Square expr
  | Minus expr expr
  | Swap expr "nat list" "nat list"
  | PartialTranspose expr "nat list" "nat list"

datatype constr = Equals expr expr | PSD expr | LessEq expr expr

datatype objective = Maximize expr | Minimize expr

record problem =
  prob_objective :: objective
  prob_constraints :: "constr list"

text \<open>
  One call \<^verbatim>\<open>prob.solve(solver=..., eps=..., verbose=...)\<close>: the problem and the keyword
  arguments given.
\<close>

record solve_call =
  call_problem :: problem
  call_solver :: string
  call_eps :: "real option"
  call_verbose :: "bool option"

datatype status =
    OPTIMAL | INFEASIBLE | UNBOUNDED
  | OPTIMAL_INACCURATE | INFEASIBLE_INACCURATE | UNBOUNDED_INACCURATE
  | INFEASIBLE_OR_UNBOUNDED | USER_LIMIT | SOLVER_ERROR

text \<open>
  What the code reads after a solve: \<^verbatim>\<open>prob.status\<close> (one of cvxpy's status constants,
  \<^verbatim>\<open>cp.OPTIMAL\<close> among them) and \<^verbatim>\<open>prob.value\<close>.
\<close>

record solution =
  sol_status :: status
  sol_value :: pyfloat

text \<open>
  The solver is a black box outside the repository: a parameter of every function that
  solves a problem. The calls made so far are kept in a list (oldest first), which every
  such function takes and returns, so that "no solver invocation" and "no further
  search" are statements about that list. An exception raised inside the solver library
  is outside this model.
\<close>

type_synonym solver = "solve_call \<Rightarrow> solution"

text \<open>\<^verbatim>\<open>x_var[i, j]\<close> on an expression of the given shape, for indices that are not negative.\<close>

definition getitem_expr :: "nat \<Rightarrow> nat \<Rightarrow> expr \<Rightarrow> nat \<Rightarrow> nat \<Rightarrow> error + expr" where
  "getitem_expr m n e i j = (if i < m \<and> j < n then Inr (Index e i j) else Inl IndexError)"

section \<open>positive\_semidefinite\_rank.py\<close>

text \<open>
  The constraint appended for one entry \<open>(i, j)\<close>:
  \<^verbatim>\<open>cp.bmat([[x_var[i,j], mat[i,j]], [mat[i,j], x_var[j,i]]]) >> 0\<close>.
\<close>

definition block_constraint :: "ndarray \<Rightarrow> expr \<Rightarrow> nat \<Rightarrow> nat \<Rightarrow> error + constr" where
  "block_constraint mat x_var i j =
     (case getitem_expr (nrows mat) (ncols mat) x_var i j of
        Inl e \<Rightarrow> Inl e
      | Inr x_ij \<Rightarrow>
          (case getitem_expr (nrows mat) (ncols mat) x_var j i of
             Inl e \<Rightarrow> Inl e
           | Inr x_ji \<Rightarrow>
               Inr (PSD (Bmat [[x_ij, Scalar (item mat i j)],
                               [Scalar (item mat i j), x_ji]]))))"

text \<open>The two nested loops of \<^verbatim>\<open>_check_psd_rank\<close> that fill \<^verbatim>\<open>constraints\<close>.\<close>

definition block_constraints :: "ndarray \<Rightarrow> expr \<Rightarrow> error + constr list" where
  "block_constraints mat x_var =
     for_each [0..<nrows mat]
       (\<lambda>i. for_each [0..<ncols mat]
          (\<lambda>j constraints.
             case block_constraint mat x_var i j of
               Inl e \<Rightarrow> Inl e
             | Inr c \<Rightarrow> Inr (constraints @ [c])))
       []"

text \<open>
  \<^verbatim>\<open>_check_psd_rank\<close> up to the construction of \<^verbatim>\<open>prob\<close>, and the call
  \<^verbatim>\<open>prob.solve(solver=cp.SCS, eps=1e-8)\<close> it makes. The literals \<^verbatim>\<open>1e-8\<close> and \<^verbatim>\<open>1e-6\<close> are
  written as the fractions \<open>1 / 10 ^ 8\<close> and \<open>1 / 10 ^ 6\<close>.
\<close>

definition check_psd_rank_problem :: "ndarray \<Rightarrow> int \<Rightarrow> error + problem" where
  "check_psd_rank_problem mat k =
     (let x_var = Variable (nrows mat) (ncols mat) False in
      case block_constraints mat x_var of
        Inl e \<Rightarrow> Inl e
      | Inr constraints \<Rightarrow>
          Inr \<lparr>prob_objective = Minimize (SumEntries (Square (Minus x_var (Constant mat)))),
               prob_constraints = constraints @ [LessEq (NormNuc x_var) (Scalar (real_of_int k))]\<rparr>)"

definition scs_call :: "problem \<Rightarrow> solve_call" where
  "scs_call prob =
     \<lparr>call_problem = prob, call_solver = ''SCS'', call_eps = Some (1 / 10 ^ 8),
      call_verbose = None\<rparr>"

text \<open>
  \<^verbatim>\<open>_check_psd_rank(mat, k)\<close>; the last line is
  \<^verbatim>\<open>return prob.status == cp.OPTIMAL and prob.value < 1e-6\<close>.
\<close>

definition check_psd_rank ::
  "solver \<Rightarrow> ndarray \<Rightarrow> int \<Rightarrow> solve_call list \<Rightarrow> (error + bool) \<times> solve_call list" where
  "check_psd_rank solver mat k calls =
     (case check_psd_rank_problem mat k of
        Inl e \<Rightarrow> (Inl e, calls)
      | Inr prob \<Rightarrow>
          (let sol = solver (scs_call prob) in
           (Inr (sol_status sol = OPTIMAL \<and> float_lt (sol_value sol) (Finite (1 / 10 ^ 6))),
            calls @ [scs_call prob])))"

text \<open>
  The loop \<^verbatim>\<open>for k in range(1, max_rank + 1)\<close> of \<^verbatim>\<open>positive_semidefinite_rank\<close>, over
  the candidates still to try: \<^verbatim>\<open>return k\<close> at the first success, \<^verbatim>\<open>return None\<close> when
  the candidates are used up.
\<close>

fun rank_search ::
  "solver \<Rightarrow> ndarray \<Rightarrow> int list \<Rightarrow> solve_call list \<Rightarrow> (error + int option) \<times> solve_call list" where
  "rank_search solver mat [] calls = (Inr None, calls)"
| "rank_search solver mat (k # ks) calls =
     (case check_psd_rank solver mat k calls of
        (Inl e, calls') \<Rightarrow> (Inl e, calls')
      | (Inr True, calls') \<Rightarrow> (Inr (Some k), calls')
      | (Inr False, calls') \<Rightarrow> rank_search solver mat ks calls')"

definition positive_semidefinite_rank ::
  "solver \<Rightarrow> ndarray \<Rightarrow> int \<Rightarrow> solve_call list \<Rightarrow> (error + int option) \<times> solve_call list" where
  "positive_semidefinite_rank solver mat max_rank calls =
     (if \<not> np_all_nonneg mat then (Inl (ValueError ''Matrix must be nonnegative.''), calls)
      else if \<not> is_square mat then (Inl (ValueError ''Matrix must be square.''), calls)
      else rank_search solver mat [1..max_rank] calls)"

section \<open>numpy operations used by bell\_inequality\_max.py\<close>

text \<open>
  \<^verbatim>\<open>np.zeros((m, n))\<close>, \<^verbatim>\<open>np.eye(n)\<close>, \<^verbatim>\<open>c * A\<close>, \<^verbatim>\<open>A + B\<close>, \<^verbatim>\<open>A / c\<close>, \<^verbatim>\<open>A.T\<close> and
  \<^verbatim>\<open>np.kron(A, B)\<close>. The sum is entrywise on arrays of one shape: every sum the code
  takes is of two arrays of equal shape (lemmas \<open>MN_operator_shape\<close> and
  \<open>bell_objective_valid\<close> below), so numpy's broadcasting is not modelled.
\<close>

definition np_zeros :: "nat \<Rightarrow> nat \<Rightarrow> ndarray" where
  "np_zeros m n = \<lparr>nrows = m, ncols = n, item = (\<lambda>i j. 0)\<rparr>"

definition np_eye :: "nat \<Rightarrow> ndarray" where
  "np_eye n = \<lparr>nrows = n, ncols = n, item = (\<lambda>i j. if i = j then 1 else 0)\<rparr>"

definition np_scale :: "real \<Rightarrow> ndarray \<Rightarrow> ndarray" where
  "np_scale c A = \<lparr>nrows = nrows A, ncols = ncols A, item = (\<lambda>i j. c * item A i j)\<rparr>"

definition np_add :: "ndarray \<Rightarrow> ndarray \<Rightarrow> ndarray" where
  "np_add A B = \<lparr>nrows = nrows A, ncols = ncols A, item = (\<lambda>i j. item A i j + item B i j)\<rparr>"

definition np_divide :: "ndarray \<Rightarrow> real \<Rightarrow> ndarray" where
  "np_divide A c = \<lparr>nrows = nrows A, ncols = ncols A, item = (\<lambda>i j. item A i j / c)\<rparr>"

definition np_transpose :: "ndarray \<Rightarrow> ndarray" where
  "np_transpose A = \<lparr>nrows = ncols A, ncols = nrows A, item = (\<lambda>i j. item A j i)\<rparr>"

definition np_kron :: "ndarray \<Rightarrow> ndarray \<Rightarrow> ndarray" where
  "np_kron A B =
     \<lparr>nrows = nrows A * nrows B, ncols = ncols A * ncols B,
      item = (\<lambda>i j. item A (i div nrows B) (j div ncols B)
                   * item B (i mod nrows B) (j mod ncols B))\<rparr>"

text \<open>
  Reading \<^verbatim>\<open>A[i, j]\<close> and \<^verbatim>\<open>v[i, 0]\<close> (a vector reshaped to a column), and the list
  assignment \<^verbatim>\<open>xs[i] = v\<close>, for indices that are not negative: out of range they raise
  \<^verbatim>\<open>IndexError\<close>.
\<close>

definition np_getitem :: "'a nparray \<Rightarrow> nat \<Rightarrow> nat \<Rightarrow> error + 'a" where
  "np_getitem A i j = (if i < nrows A \<and> j < ncols A then Inr (item A i j) else Inl IndexError)"

definition vec_getitem :: "'a list \<Rightarrow> nat \<Rightarrow> error + 'a" where
  "vec_getitem v i = (if i < length v then Inr (v ! i) else Inl IndexError)"

definition list_setitem :: "'a list \<Rightarrow> nat \<Rightarrow> 'a \<Rightarrow> error + 'a list" where
  "list_setitem xs i v = (if i < length xs then Inr (xs[i := v]) else Inl IndexError)"

text \<open>Sequencing two steps that can raise: the first exception ends the computation.\<close>

definition and_then :: "error + 'a \<Rightarrow> ('a \<Rightarrow> error + 'b) \<Rightarrow> error + 'b" where
  "and_then r f = (case r of Inl e \<Rightarrow> Inl e | Inr v \<Rightarrow> f v)"

text \<open>
  \<^verbatim>\<open>itertools.combinations(xs, r)\<close>: the \<open>r\<close>-element subsequences of \<open>xs\<close>, in
  lexicographic order of their positions.
\<close>

fun combinations :: "'a list \<Rightarrow> nat \<Rightarrow> 'a list list" where
  "combinations xs 0 = [[]]"
| "combinations [] (Suc r) = []"
| "combinations (x # xs) (Suc r) = map ((#) x) (combinations xs r) @ combinations xs (Suc r)"

text \<open>
  Modelled from the spec: \<^verbatim>\<open>toqito.perms.permutation_operator\<close> is imported by
  \<^verbatim>\<open>bell_inequality_max.py\<close> and is not among the sources. The spec: "input a dimension
  list and a permutation of subsystem positions; output the unitary (here, a 0/1
  permutation) matrix implementing `relabel subsystem i as subsystem perm(i)' on the full
  tensor space", in "row-major Kronecker (tensor) order". The digit of subsystem \<open>k\<close> in
  a row-major index is \<open>digit dims k i\<close>; the operator sends the basis vector with index
  \<open>c\<close> to the one whose \<open>k\<close>-th factor is the \<open>perm ! k\<close>-th factor of \<open>c\<close>. The two further
  arguments of the call in \<^verbatim>\<open>MN_matrix\<close> (\<^verbatim>\<open>inv_perm = 0\<close>, \<^verbatim>\<open>is_sparse = 1\<close>) choose the
  permutation itself and a sparse storage; they are not parameters of the model.
\<close>

definition digit :: "nat list \<Rightarrow> nat \<Rightarrow> nat \<Rightarrow> nat" where
  "digit dims k i = (i div prod_list (drop (Suc k) dims)) mod (dims ! k)"

definition permutation_operator :: "nat list \<Rightarrow> nat list \<Rightarrow> ndarray" where
  "permutation_operator dims perm =
     \<lparr>nrows = prod_list dims, ncols = prod_list dims,
      item = (\<lambda>r c.
        if list_all (\<lambda>k. digit (map (\<lambda>l. dims ! (perm ! l)) [0..<length dims]) k r
                          = digit dims (perm ! k) c) [0..<length dims]
        then 1 else 0)\<rparr>"

section \<open>bell\_inequality\_max.py\<close>

text \<open>
  \<^verbatim>\<open>MN_matrix(m, a, x)\<close>. The arguments are the loop indices of the caller, which are
  never negative: they are natural numbers here. \<^verbatim>\<open>perm[x] = 0\<close> raises \<^verbatim>\<open>IndexError\<close>
  when \<open>x > m\<close>.
\<close>

definition MN_matrix :: "nat \<Rightarrow> nat \<Rightarrow> nat \<Rightarrow> error + ndarray" where
  "MN_matrix m a x =
     and_then (list_setitem [0..<m + 1] 0 x) (\<lambda>perm.
     and_then (list_setitem perm x 0) (\<lambda>perm.
       Inr (np_add (np_scale (real a) (np_eye (2 ^ (m + 1))))
                   (np_scale ((- 1) ^ a) (permutation_operator (replicate (m + 1) 2) perm)))))"

text \<open>
  The body of the four nested loops: the coefficient \<^verbatim>\<open>b_coeff\<close> and the update
  \<^verbatim>\<open>obj_mat += b_coeff * np.kron(MN_matrix(m, a, x), MN_matrix(m, b, y))\<close>. The vectors
  have been reshaped to columns, so \<^verbatim>\<open>a_val[a, 0]\<close> is entry \<open>a\<close> of \<open>a_val\<close>. The
  coefficient is a numpy scalar: its products and sums are those of the arrays' dtype
  (\<open>np_mul\<close>, \<open>np_plus\<close>), and it becomes a float when it multiplies the float matrix
  \<^verbatim>\<open>np.kron(...)\<close>.
\<close>

definition bell_term ::
  "nat \<Rightarrow> coe_matrix \<Rightarrow> coe_vector \<Rightarrow> coe_vector \<Rightarrow> coe_vector \<Rightarrow> coe_vector \<Rightarrow>
   nat \<Rightarrow> nat \<Rightarrow> nat \<Rightarrow> nat \<Rightarrow> ndarray \<Rightarrow> error + ndarray" where
  "bell_term m joint_coe a_coe b_coe a_val b_val a b x y obj_mat =
     and_then (np_getitem joint_coe (x - 1) (y - 1)) (\<lambda>j_xy.
     and_then (vec_getitem a_val a) (\<lambda>a_val_a.
     and_then (vec_getitem b_val b) (\<lambda>b_val_b.
     and_then (if y = 1
               then and_then (vec_getitem a_coe (x - 1)) (\<lambda>a_coe_x.
                    and_then (vec_getitem a_val a) (\<lambda>a_val_a'.
                      Inr (np_plus (np_mul (np_mul j_xy a_val_a) b_val_b)
                                   (np_mul a_coe_x a_val_a'))))
               else Inr (np_mul (np_mul j_xy a_val_a) b_val_b)) (\<lambda>b_coeff.
     and_then (if x = 1
               then and_then (vec_getitem b_coe (y - 1)) (\<lambda>b_coe_y.
                    and_then (vec_getitem b_val b) (\<lambda>b_val_b'.
                      Inr (np_plus b_coeff (np_mul b_coe_y b_val_b'))))
               else Inr b_coeff) (\<lambda>b_coeff.
     and_then (MN_matrix m a x) (\<lambda>M.
     and_then (MN_matrix m b y) (\<lambda>N.
       Inr (np_add obj_mat (np_scale (to_float b_coeff) (np_kron M N))))))))))"

text \<open>
  Lines 115 to 135: \<^verbatim>\<open>obj_mat\<close> starts as zeros, the loops over \<^verbatim>\<open>range(2)\<close>,
  \<^verbatim>\<open>range(2)\<close>, \<^verbatim>\<open>range(1, m + 1)\<close> and \<^verbatim>\<open>range(1, m + 1)\<close> add the terms, and the
  result is symmetrised: \<^verbatim>\<open>obj_mat = (obj_mat + obj_mat.T) / 2\<close>.
\<close>

definition bell_objective ::
  "coe_matrix \<Rightarrow> coe_vector \<Rightarrow> coe_vector \<Rightarrow> coe_vector \<Rightarrow> coe_vector \<Rightarrow> error + ndarray" where
  "bell_objective joint_coe a_coe b_coe a_val b_val =
     (let m = nrows joint_coe; tot_dim = 2 ^ (2 * m + 2) in
      and_then
        (for_each [0..<2] (\<lambda>a.
           for_each [0..<2] (\<lambda>b.
             for_each [1..<m + 1] (\<lambda>x.
               for_each [1..<m + 1] (\<lambda>y.
                 bell_term m joint_coe a_coe b_coe a_val b_val a b x y))))
           (np_zeros tot_dim tot_dim))
        (\<lambda>obj_mat. Inr (np_divide (np_add obj_mat (np_transpose obj_mat)) 2)))"

definition aux_mat :: ndarray where
  "aux_mat = \<lparr>nrows = 4, ncols = 4, item = (\<lambda>i j. if i = 0 \<and> j = 0 then 1 else 0)\<rparr>"

text \<open>
  Lines 139 to 158: the variable \<^verbatim>\<open>W\<close>, the three \<^verbatim>\<open>swap\<close> calls, the objective, the two
  first constraints and the loops that append one constraint for every
  \<^verbatim>\<open>ppt_partition\<close>. For \<open>m = 0\<close> Python's \<^verbatim>\<open>range(1, 2*m - 1)\<close> and \<^verbatim>\<open>[2] * (2*(m - 1))\<close> are
  empty, as \<open>[1..<2 * m - 1]\<close> and \<open>replicate (2 * (m - 1)) 2\<close> are on natural numbers.
\<close>

definition bell_W :: "nat \<Rightarrow> expr" where
  "bell_W m = Variable (2 ^ (2 * m)) (2 ^ (2 * m)) True"

definition bell_Z :: "nat \<Rightarrow> expr" where
  "bell_Z m =
     (let M = Swap (bell_W m) [2, m + 1] (replicate (2 * m) 2);
          X = Swap (Kron M (Constant aux_mat)) [m + 1, 2 * m + 1] (replicate (2 * m + 2) 2)
      in Swap X [m + 2, 2 * m + 1] (replicate (2 * m + 2) 2))"

definition bell_constraints :: "nat \<Rightarrow> constr list" where
  "bell_constraints m =
     fold (\<lambda>sz. fold (\<lambda>ppt_partition constraints.
                    constraints @
                    [PSD (PartialTranspose (bell_W m) (map (\<lambda>x. x - 1) ppt_partition)
                            (4 # replicate (2 * (m - 1)) 2))])
                  (combinations [1..<2 * m - 1] sz))
          [1..<m + 1]
          [Equals (Trace (bell_W m)) (Scalar 1), PSD (bell_W m)]"

definition bell_problem :: "nat \<Rightarrow> ndarray \<Rightarrow> problem" where
  "bell_problem m obj_mat =
     \<lparr>prob_objective = Maximize (Trace (MatMul (bell_Z m) (Constant obj_mat))),
      prob_constraints = bell_constraints m\<rparr>"

definition mosek_call :: "problem \<Rightarrow> solve_call" where
  "mosek_call prob =
     \<lparr>call_problem = prob, call_solver = ''MOSEK'', call_eps = None,
      call_verbose = Some False\<rparr>"

text \<open>
  \<^verbatim>\<open>bell_inequality_max\<close>. The length test of line 112 comes before anything is built;
  after the solve the function returns \<^verbatim>\<open>prob.value\<close> and reads nothing else.
\<close>

definition bell_inequality_max ::
  "solver \<Rightarrow> coe_matrix \<Rightarrow> coe_vector \<Rightarrow> coe_vector \<Rightarrow> coe_vector \<Rightarrow> coe_vector \<Rightarrow>
   solve_call list \<Rightarrow> (error + pyfloat) \<times> solve_call list" where
  "bell_inequality_max solver joint_coe a_coe b_coe a_val b_val calls =
     (let m = nrows joint_coe; oa = length a_val; ob = length b_val in
      if oa \<noteq> 2 \<or> ob \<noteq> 2
      then (Inl (ValueError
             ''This script is only capable of handling Bell inequalities with two outcomes.''),
            calls)
      else
        (case bell_objective joint_coe a_coe b_coe a_val b_val of
           Inl e \<Rightarrow> (Inl e, calls)
         | Inr obj_mat \<Rightarrow>
             (let prob = bell_problem m obj_mat;
                  bmax = sol_value (solver (mosek_call prob))
              in (Inr bmax, calls @ [mosek_call prob]))))"

section \<open>The specification's reading of the feasibility problem\<close>

text \<open>
  The problem the spec describes for a candidate rank \<open>k\<close>: a variable \<open>X\<close> of the shape of
  \<open>mat\<close>, one 2-by-2 block constraint per entry in row-major order, the nuclear-norm bound,
  and the sum-of-squares objective. It is compared below with the problem the code builds.
\<close>

definition x_variable :: "ndarray \<Rightarrow> expr" where
  "x_variable mat = Variable (nrows mat) (ncols mat) False"

definition psd_block :: "ndarray \<Rightarrow> nat \<Rightarrow> nat \<Rightarrow> constr" where
  "psd_block mat i j =
     PSD (Bmat [[Index (x_variable mat) i j, Scalar (item mat i j)],
                [Scalar (item mat i j), Index (x_variable mat) j i]])"

definition psd_feasibility_problem :: "ndarray \<Rightarrow> int \<Rightarrow> problem" where
  "psd_feasibility_problem mat k =
     \<lparr>prob_objective = Minimize (SumEntries (Square (Minus (x_variable mat) (Constant mat)))),
      prob_constraints =
        concat (map (\<lambda>i. map (\<lambda>j. psd_block mat i j) [0..<ncols mat]) [0..<nrows mat])
        @ [LessEq (NormNuc (x_variable mat)) (Scalar (real_of_int k))]\<rparr>"

text \<open>
  The call the search makes for candidate \<open>k\<close>, and whether the solver's answer to it
  passes the test of the last line of \<^verbatim>\<open>_check_psd_rank\<close>.
\<close>

definition psd_rank_call :: "ndarray \<Rightarrow> int \<Rightarrow> solve_call" where
  "psd_rank_call mat k = scs_call (psd_feasibility_problem mat k)"

definition feasible_at :: "solver \<Rightarrow> ndarray \<Rightarrow> int \<Rightarrow> bool" where
  "feasible_at solver mat k =
     (sol_status (solver (psd_rank_call mat k)) = OPTIMAL \<and>
      float_lt (sol_value (solver (psd_rank_call mat k))) (Finite (1 / 10 ^ 6)))"

section \<open>The specification's reading of the Bell operator and its SDP\<close>

text \<open>
  The permutation that exchanges positions \<open>0\<close> and \<open>x\<close> of \<open>m + 1\<close> subsystems, and the
  measurement operator \<open>a * I + (-1)^a * P\<close> of the spec's data model.
\<close>

definition exchange_perm :: "nat \<Rightarrow> nat \<Rightarrow> nat list" where
  "exchange_perm m x = map (\<lambda>k. if k = 0 then x else if k = x then 0 else k) [0..<m + 1]"

definition MN_operator :: "nat \<Rightarrow> nat \<Rightarrow> nat \<Rightarrow> ndarray" where
  "MN_operator m a x =
     np_add (np_scale (real a) (np_eye (2 ^ (m + 1))))
            (np_scale ((- 1) ^ a)
               (permutation_operator (replicate (m + 1) 2) (exchange_perm m x)))"

text \<open>
  A valid input: \<open>m \<ge> 1\<close> settings, an \<open>m\<close>-by-\<open>m\<close> joint coefficient matrix, marginal
  coefficient vectors of length \<open>m\<close> and outcome-value vectors of length 2.
\<close>

definition bell_valid ::
  "coe_matrix \<Rightarrow> coe_vector \<Rightarrow> coe_vector \<Rightarrow> coe_vector \<Rightarrow> coe_vector \<Rightarrow> bool" where
  "bell_valid joint_coe a_coe b_coe a_val b_val =
     (0 < nrows joint_coe \<and> ncols joint_coe = nrows joint_coe \<and>
      length a_coe = nrows joint_coe \<and> length b_coe = nrows joint_coe \<and>
      length a_val = 2 \<and> length b_val = 2)"

text \<open>
  The coefficient of the term \<open>(a, b, x, y)\<close>, with \<open>x\<close> and \<open>y\<close> counted from 1, in two
  readings: \<open>np_coeff\<close> is the spec's formula taken in the arithmetic of numpy scalars,
  \<open>bell_coeff\<close> is the same formula over the real numbers the entries denote.
\<close>

definition np_coeff ::
  "coe_matrix \<Rightarrow> coe_vector \<Rightarrow> coe_vector \<Rightarrow> coe_vector \<Rightarrow> coe_vector \<Rightarrow>
   nat \<Rightarrow> nat \<Rightarrow> nat \<Rightarrow> nat \<Rightarrow> npnum" where
  "np_coeff joint_coe a_coe b_coe a_val b_val a b x y =
     (let joint = np_mul (np_mul (item joint_coe (x - 1) (y - 1)) (a_val ! a)) (b_val ! b);
          with_a = (if y = 1 then np_plus joint (np_mul (a_coe ! (x - 1)) (a_val ! a))
                    else joint)
      in if x = 1 then np_plus with_a (np_mul (b_coe ! (y - 1)) (b_val ! b)) else with_a)"

definition bell_coeff ::
  "coe_matrix \<Rightarrow> coe_vector \<Rightarrow> coe_vector \<Rightarrow> coe_vector \<Rightarrow> coe_vector \<Rightarrow>
   nat \<Rightarrow> nat \<Rightarrow> nat \<Rightarrow> nat \<Rightarrow> real" where
  "bell_coeff joint_coe a_coe b_coe a_val b_val a b x y =
     to_float (item joint_coe (x - 1) (y - 1)) * to_float (a_val ! a) * to_float (b_val ! b)
     + (if y = 1 then to_float (a_coe ! (x - 1)) * to_float (a_val ! a) else 0)
     + (if x = 1 then to_float (b_coe ! (y - 1)) * to_float (b_val ! b) else 0)"

text \<open>
  The entry \<open>(r, c)\<close> of the sum of all terms, with the coefficients numpy computes
  (\<open>bell_sum\<close>) and with the real coefficients (\<open>claimed_sum\<close>).
\<close>

definition bell_sum ::
  "coe_matrix \<Rightarrow> coe_vector \<Rightarrow> coe_vector \<Rightarrow> coe_vector \<Rightarrow> coe_vector \<Rightarrow>
   nat \<Rightarrow> nat \<Rightarrow> real" where
  "bell_sum joint_coe a_coe b_coe a_val b_val r c =
     (\<Sum>a<2. \<Sum>b<2. \<Sum>x = 1..nrows joint_coe. \<Sum>y = 1..nrows joint_coe.
        to_float (np_coeff joint_coe a_coe b_coe a_val b_val a b x y)
        * item (np_kron (MN_operator (nrows joint_coe) a x) (MN_operator (nrows joint_coe) b y)) r c)"

definition claimed_sum ::
  "coe_matrix \<Rightarrow> coe_vector \<Rightarrow> coe_vector \<Rightarrow> coe_vector \<Rightarrow> coe_vector \<Rightarrow>
   nat \<Rightarrow> nat \<Rightarrow> real" where
  "claimed_sum joint_coe a_coe b_coe a_val b_val r c =
     (\<Sum>a<2. \<Sum>b<2. \<Sum>x = 1..nrows joint_coe. \<Sum>y = 1..nrows joint_coe.
        bell_coeff joint_coe a_coe b_coe a_val b_val a b x y
        * item (np_kron (MN_operator (nrows joint_coe) a x) (MN_operator (nrows joint_coe) b y)) r c)"

text \<open>
  Inputs on which the two readings agree: arrays of floats, and arrays of integers of
  absolute value at most \<open>2^20\<close>, whose products of three and sums of three stay far
  inside the 64-bit range.
\<close>

fun is_float64 :: "npnum \<Rightarrow> bool" where
  "is_float64 (Float64 x) = True"
| "is_float64 (Int64 a) = False"

fun small_int64 :: "npnum \<Rightarrow> bool" where
  "small_int64 (Int64 a) = (\<bar>a\<bar> \<le> 2 ^ 20)"
| "small_int64 (Float64 x) = False"

definition all_entries ::
  "(npnum \<Rightarrow> bool) \<Rightarrow>
   coe_matrix \<Rightarrow> coe_vector \<Rightarrow> coe_vector \<Rightarrow> coe_vector \<Rightarrow> coe_vector \<Rightarrow> bool" where
  "all_entries P joint_coe a_coe b_coe a_val b_val =
     (list_all (\<lambda>i. list_all (\<lambda>j. P (item joint_coe i j)) [0..<ncols joint_coe])
        [0..<nrows joint_coe]
      \<and> list_all P a_coe \<and> list_all P b_coe \<and> list_all P a_val \<and> list_all P b_val)"

text \<open>Adding a family of entries to an array, as a loop of \<^verbatim>\<open>+=\<close> does.\<close>

definition add_items :: "ndarray \<Rightarrow> (nat \<Rightarrow> nat \<Rightarrow> real) \<Rightarrow> ndarray" where
  "add_items A f = \<lparr>nrows = nrows A, ncols = ncols A, item = (\<lambda>i j. item A i j + f i j)\<rparr>"

text \<open>
  The PPT partitions of the spec: every subset of the index range \<open>[0, 2m - 2)\<close> of size
  1 to \<open>m\<close>, each as the increasing list of its elements, grouped by size.
\<close>

definition ppt_partitions :: "nat \<Rightarrow> nat list list" where
  "ppt_partitions m = concat (map (combinations [0..<2 * m - 2]) [1..<m + 1])"

text \<open>
  The symmetrised operator \<open>(M + M\<^sup>T) / 2\<close>, where \<open>M\<close> is the sum of all terms with
  the coefficients numpy computes, and the solver call that carries it.
\<close>

definition bell_operator ::
  "coe_matrix \<Rightarrow> coe_vector \<Rightarrow> coe_vector \<Rightarrow> coe_vector \<Rightarrow> coe_vector \<Rightarrow> ndarray" where
  "bell_operator joint_coe a_coe b_coe a_val b_val =
     \<lparr>nrows = 2 ^ (2 * nrows joint_coe + 2), ncols = 2 ^ (2 * nrows joint_coe + 2),
      item = (\<lambda>r c. (bell_sum joint_coe a_coe b_coe a_val b_val r c
                      + bell_sum joint_coe a_coe b_coe a_val b_val c r) / 2)\<rparr>"

definition bell_call ::
  "coe_matrix \<Rightarrow> coe_vector \<Rightarrow> coe_vector \<Rightarrow> coe_vector \<Rightarrow> coe_vector \<Rightarrow> solve_call" where
  "bell_call joint_coe a_coe b_coe a_val b_val =
     mosek_call (bell_problem (nrows joint_coe)
                   (bell_operator joint_coe a_coe b_coe a_val b_val))"

section \<open>Example inputs\<close>

text \<open>
  The 2-by-2 identity matrix, a solver that reports every problem optimal with value 0,
  and a solver that reports a problem infeasible exactly when its nuclear-norm bound is 1.
\<close>

definition identity2 :: ndarray where
  "identity2 = \<lparr>nrows = 2, ncols = 2, item = (\<lambda>i j. if i = j then 1 else 0)\<rparr>"

definition always_optimal :: solver where
  "always_optimal call = \<lparr>sol_status = OPTIMAL, sol_value = Finite 0\<rparr>"

definition optimal_from_two :: solver where
  "optimal_from_two call =
     (if last (prob_constraints (call_problem call))
           = LessEq (NormNuc (Variable 2 2 False)) (Scalar 1)
      then \<lparr>sol_status = INFEASIBLE, sol_value = PosInf\<rparr>
      else \<lparr>sol_status = OPTIMAL, sol_value = Finite 0\<rparr>)"


definition chsh :: coe_matrix where
  "chsh = \<lparr>nrows = 2, ncols = 2,
            item = (\<lambda>i j. if i = 1 \<and> j = 1 then Int64 (- 1) else Int64 1)\<rparr>"



definition inaccurate_solver :: solver where
  "inaccurate_solver call = \<lparr>sol_status = OPTIMAL_INACCURATE, sol_value = Finite (1 / 4)\<rparr>"

definition infeasible_solver :: solver where
  "infeasible_solver call = \<lparr>sol_status = INFEASIBLE, sol_value = NegInf\<rparr>"

section \<open>Properties of the PSD-rank search\<close>

lemma for_each_append:
  "(\<And>i s. i \<in> set is \<Longrightarrow> body i s = Inr (s @ g i)) \<Longrightarrow>
   for_each is body s = Inr (s @ concat (map g is))"
  by (induction "is" arbitrary: s) simp_all

lemma block_constraint_square:
  "is_square mat \<Longrightarrow> i < nrows mat \<Longrightarrow> j < ncols mat \<Longrightarrow>
   block_constraint mat (x_variable mat) i j = Inr (psd_block mat i j)"
  by (simp add: block_constraint_def getitem_expr_def is_square_def psd_block_def)

lemma block_constraints_square:
  assumes "is_square mat"
  shows "block_constraints mat (x_variable mat) =
         Inr (concat (map (\<lambda>i. map (\<lambda>j. psd_block mat i j) [0..<ncols mat]) [0..<nrows mat]))"
proof -
  have inner: "for_each [0..<ncols mat]
          (\<lambda>j constraints.
             case block_constraint mat (x_variable mat) i j of
               Inl e \<Rightarrow> Inl e
             | Inr c \<Rightarrow> Inr (constraints @ [c])) s
       = Inr (s @ map (\<lambda>j. psd_block mat i j) [0..<ncols mat])"
    if "i \<in> set [0..<nrows mat]" for i s
  proof -
    have "for_each [0..<ncols mat]
          (\<lambda>j constraints.
             case block_constraint mat (x_variable mat) i j of
               Inl e \<Rightarrow> Inl e
             | Inr c \<Rightarrow> Inr (constraints @ [c])) s
       = Inr (s @ concat (map (\<lambda>j. [psd_block mat i j]) [0..<ncols mat]))"
      using that assms by (intro for_each_append) (simp add: block_constraint_square)
    then show ?thesis by simp
  qed
  have "for_each [0..<nrows mat]
       (\<lambda>i. for_each [0..<ncols mat]
          (\<lambda>j constraints.
             case block_constraint mat (x_variable mat) i j of
               Inl e \<Rightarrow> Inl e
             | Inr c \<Rightarrow> Inr (constraints @ [c])))
       [] = Inr ([] @ concat (map (\<lambda>i. map (\<lambda>j. psd_block mat i j) [0..<ncols mat]) [0..<nrows mat]))"
    by (rule for_each_append) (rule inner)
  then show ?thesis
    by (simp add: block_constraints_def)
qed

lemma check_psd_rank_problem_square:
  "is_square mat \<Longrightarrow> check_psd_rank_problem mat k = Inr (psd_feasibility_problem mat k)"
  using block_constraints_square [of mat]
  by (simp add: check_psd_rank_problem_def psd_feasibility_problem_def x_variable_def Let_def)

lemma length_concat_grid:
  "length (concat (map (\<lambda>i. map (f i) [0..<n]) [0..<m])) = m * n"
  by (induction m) simp_all

lemma nth_concat_grid:
  "i < m \<Longrightarrow> j < n \<Longrightarrow> concat (map (\<lambda>i. map (f i) [0..<n]) [0..<m]) ! (i * n + j) = f i j"
proof (induction m)
  case 0
  then show ?case by simp
next
  case (Suc m)
  show ?case
  proof (cases "i < m")
    case True
    have "i * n + j < Suc i * n"
      using Suc.prems(2) by simp
    also have "\<dots> \<le> m * n"
      using True by (intro mult_le_mono1) simp
    finally have "i * n + j < m * n" .
    with True Suc show ?thesis
      by (simp add: nth_append length_concat_grid)
  next
    case False
    with Suc.prems have "i = m" by simp
    with Suc.prems show ?thesis
      by (simp add: nth_append length_concat_grid)
  qed
qed

lemma check_psd_rank_square:
  "is_square mat \<Longrightarrow>
   check_psd_rank solver mat k calls =
     (Inr (feasible_at solver mat k), calls @ [psd_rank_call mat k])"
  by (simp add: check_psd_rank_def check_psd_rank_problem_square feasible_at_def
      psd_rank_call_def Let_def)

lemma rank_search_upto:
  assumes sq: "is_square mat"
  shows "(\<exists>k. lo \<le> k \<and> k \<le> hi \<and> feasible_at solver mat k \<and>
            (\<forall>j. lo \<le> j \<and> j < k \<longrightarrow> \<not> feasible_at solver mat j) \<and>
            rank_search solver mat [lo..hi] calls =
              (Inr (Some k), calls @ map (psd_rank_call mat) [lo..k]))
       \<or> ((\<forall>k. lo \<le> k \<and> k \<le> hi \<longrightarrow> \<not> feasible_at solver mat k) \<and>
          rank_search solver mat [lo..hi] calls =
            (Inr None, calls @ map (psd_rank_call mat) [lo..hi]))"
proof (induction lo hi arbitrary: calls rule: upto.induct)
  case (1 i j)
  show ?case
  proof (cases "i \<le> j")
    case False
    then have "[i..j] = []" by simp
    moreover have "\<forall>k. i \<le> k \<and> k \<le> j \<longrightarrow> \<not> feasible_at solver mat k"
      using False by auto
    ultimately show ?thesis by simp
  next
    case le: True
    then have unfold: "[i..j] = i # [i + 1..j]"
      by (simp add: upto_rec1)
    show ?thesis
    proof (cases "feasible_at solver mat i")
      case True
      then have "rank_search solver mat [i..j] calls =
                   (Inr (Some i), calls @ map (psd_rank_call mat) [i..i])"
        by (simp add: unfold check_psd_rank_square [OF sq])
      with True le show ?thesis by force
    next
      case nf: False
      have step: "rank_search solver mat [i..j] calls =
                    rank_search solver mat [i + 1..j] (calls @ [psd_rank_call mat i])"
        using nf by (simp add: unfold check_psd_rank_square [OF sq])
      from "1.IH" [OF le, of "calls @ [psd_rank_call mat i]"]
      show ?thesis
      proof (elim disjE exE conjE)
        fix k
        assume k: "i + 1 \<le> k" "k \<le> j" "feasible_at solver mat k"
          and least: "\<forall>j. i + 1 \<le> j \<and> j < k \<longrightarrow> \<not> feasible_at solver mat j"
          and res: "rank_search solver mat [i + 1..j] (calls @ [psd_rank_call mat i]) =
                 (Inr (Some k), (calls @ [psd_rank_call mat i]) @ map (psd_rank_call mat) [i + 1..k])"
        have "[i..k] = i # [i + 1..k]"
          using k(1) by (simp add: upto_rec1)
        then have "rank_search solver mat [i..j] calls =
                     (Inr (Some k), calls @ map (psd_rank_call mat) [i..k])"
          using step res by simp
        moreover have "\<forall>j'. i \<le> j' \<and> j' < k \<longrightarrow> \<not> feasible_at solver mat j'"
        proof (intro allI impI)
          fix j' assume "i \<le> j' \<and> j' < k"
          then show "\<not> feasible_at solver mat j'"
            using nf least by (cases "j' = i") auto
        qed
        ultimately show ?thesis
          using k by (intro disjI1 exI [of _ k]) simp
      next
        assume none: "\<forall>k. i + 1 \<le> k \<and> k \<le> j \<longrightarrow> \<not> feasible_at solver mat k"
          and res: "rank_search solver mat [i + 1..j] (calls @ [psd_rank_call mat i]) =
                 (Inr None, (calls @ [psd_rank_call mat i]) @ map (psd_rank_call mat) [i + 1..j])"
        have "rank_search solver mat [i..j] calls =
                (Inr None, calls @ map (psd_rank_call mat) [i..j])"
          using step res unfold by simp
        moreover have "\<forall>k. i \<le> k \<and> k \<le> j \<longrightarrow> \<not> feasible_at solver mat k"
        proof (intro allI impI)
          fix k assume "i \<le> k \<and> k \<le> j"
          then show "\<not> feasible_at solver mat k"
            using nf none by (cases "k = i") auto
        qed
        ultimately show ?thesis by blast
      qed
    qed
  qed
qed

lemma np_all_nonneg_iff:
  "np_all_nonneg mat \<longleftrightarrow> (\<forall>i<nrows mat. \<forall>j<ncols mat. 0 \<le> item mat i j)"
  by (auto simp: np_all_nonneg_def list_all_iff)

lemma identity2_valid: "np_all_nonneg identity2" "is_square identity2"
  by (simp_all add: np_all_nonneg_def is_square_def identity2_def upt_rec)

lemma last_psd_feasibility_problem:
  "last (prob_constraints (psd_feasibility_problem mat k))
     = LessEq (NormNuc (x_variable mat)) (Scalar (real_of_int k))"
  by (simp add: psd_feasibility_problem_def)

lemma feasible_identity2:
  "\<not> feasible_at optimal_from_two identity2 1" "feasible_at optimal_from_two identity2 2"
  by (simp_all add: feasible_at_def optimal_from_two_def psd_rank_call_def scs_call_def
      last_psd_feasibility_problem x_variable_def identity2_def)

lemma search_always_optimal:
  "positive_semidefinite_rank always_optimal identity2 3 [] =
     (Inr (Some 1), [psd_rank_call identity2 1])"
  by (simp add: positive_semidefinite_rank_def identity2_valid upto_rec1
      check_psd_rank_square feasible_at_def always_optimal_def)

text \<open>
  Claim C6. A matrix with a negative entry, or one that is not square, makes
  \<^verbatim>\<open>positive_semidefinite_rank\<close> raise \<^verbatim>\<open>ValueError\<close> (the spec's InvalidInputError) at
  once: the list of solver calls is returned as it was given, so no feasibility check ran
  and the solver was never invoked. The negativity test comes first.
\<close>

theorem invalid_matrix_raises_before_solving:
  assumes "(\<exists>i<nrows mat. \<exists>j<ncols mat. item mat i j < 0) \<or> nrows mat \<noteq> ncols mat"
  shows "positive_semidefinite_rank solver mat max_rank calls =
           (Inl (ValueError (if (\<exists>i<nrows mat. \<exists>j<ncols mat. item mat i j < 0)
                             then ''Matrix must be nonnegative.''
                             else ''Matrix must be square.'')), calls)"
proof (cases "\<exists>i<nrows mat. \<exists>j<ncols mat. item mat i j < 0")
  case True
  then have "\<not> np_all_nonneg mat"
    by (auto simp: np_all_nonneg_iff not_le)
  with True show ?thesis
    by (simp add: positive_semidefinite_rank_def)
next
  case False
  then have "np_all_nonneg mat"
    unfolding np_all_nonneg_iff by (meson not_less)
  moreover from False assms have "\<not> is_square mat"
    unfolding is_square_def by blast
  ultimately show ?thesis
    using False by (simp add: positive_semidefinite_rank_def)
qed

text \<open>Witness for C6: a square matrix with negative entries, and a nonnegative 2-by-3 matrix.\<close>

theorem invalid_matrix_raises_before_solving_witness:
  "positive_semidefinite_rank (\<lambda>c. \<lparr>sol_status = OPTIMAL, sol_value = Finite 0\<rparr>)
     \<lparr>nrows = 2, ncols = 2, item = (\<lambda>i j. if i = j then 1 else - 1)\<rparr> 10 []
     = (Inl (ValueError ''Matrix must be nonnegative.''), [])
   \<and> positive_semidefinite_rank (\<lambda>c. \<lparr>sol_status = OPTIMAL, sol_value = Finite 0\<rparr>)
     \<lparr>nrows = 2, ncols = 3, item = (\<lambda>i j. 1)\<rparr> 10 []
     = (Inl (ValueError ''Matrix must be square.''), [])"
proof -
  have neg: "\<exists>i<2::nat. \<exists>j<2::nat. (if i = j then 1 else - 1 :: real) < 0"
    by (rule exI [of _ 0], simp, rule exI [of _ 1], simp)
  have nonneg: "\<not> (\<exists>i<2::nat. \<exists>j<3::nat. (1::real) < 0)"
    by simp
  show ?thesis
    using invalid_matrix_raises_before_solving
        [of "\<lparr>nrows = 2, ncols = 2, item = (\<lambda>i j. if i = j then 1 else - 1)\<rparr>"
            "\<lambda>c. \<lparr>sol_status = OPTIMAL, sol_value = Finite 0\<rparr>" 10 "[]"]
      invalid_matrix_raises_before_solving
        [of "\<lparr>nrows = 2, ncols = 3, item = (\<lambda>i j. 1)\<rparr>"
            "\<lambda>c. \<lparr>sol_status = OPTIMAL, sol_value = Finite 0\<rparr>" 10 "[]"]
      neg nonneg
    by simp
qed

text \<open>
  Claim C10. On a nonnegative square matrix, a result that is not \<^verbatim>\<open>None\<close> is an integer
  \<open>k\<close> with \<open>1 \<le> k \<le> max_rank\<close>; and when \<open>max_rank < 1\<close> the result is \<^verbatim>\<open>None\<close> and no
  call reaches the solver.
\<close>

theorem rank_in_bounds_and_none_below_one:
  assumes "np_all_nonneg mat" and "is_square mat"
  shows "(\<forall>k. fst (positive_semidefinite_rank solver mat max_rank calls) = Inr (Some k)
              \<longrightarrow> 1 \<le> k \<and> k \<le> max_rank)
       \<and> (max_rank < 1 \<longrightarrow>
            positive_semidefinite_rank solver mat max_rank calls = (Inr None, calls))"
proof -
  have eq: "positive_semidefinite_rank solver mat max_rank calls =
              rank_search solver mat [1..max_rank] calls"
    using assms by (simp add: positive_semidefinite_rank_def)
  have "\<forall>k. fst (rank_search solver mat [1..max_rank] calls) = Inr (Some k)
              \<longrightarrow> 1 \<le> k \<and> k \<le> max_rank"
    using rank_search_upto [OF assms(2), of 1 max_rank solver calls] by auto
  moreover have "max_rank < 1 \<longrightarrow> rank_search solver mat [1..max_rank] calls = (Inr None, calls)"
    by simp
  ultimately show ?thesis
    by (simp only: eq) 
qed

text \<open>Witness for C10, at the 2-by-2 identity with \<open>max_rank = 0\<close> and \<open>max_rank = 3\<close>.\<close>

theorem rank_in_bounds_and_none_below_one_witness:
  "np_all_nonneg identity2 \<and> is_square identity2
   \<and> positive_semidefinite_rank always_optimal identity2 0 [] = (Inr None, [])
   \<and> fst (positive_semidefinite_rank always_optimal identity2 3 []) = Inr (Some 1)
   \<and> (1::int) \<le> 1 \<and> (1::int) \<le> 3"
proof -
  have found: "fst (positive_semidefinite_rank always_optimal identity2 3 []) = Inr (Some 1)"
    by (simp add: search_always_optimal)
  from rank_in_bounds_and_none_below_one [OF identity2_valid, of always_optimal 3 "[]"] found
  have "(1::int) \<le> 1 \<and> (1::int) \<le> 3"
    by blast
  with found show ?thesis
    using rank_in_bounds_and_none_below_one [OF identity2_valid, of always_optimal 0 "[]"]
      identity2_valid
    by simp
qed

text \<open>
  Claim C2. On a nonnegative square matrix with \<open>max_rank \<ge> 1\<close>:
  the check for a candidate \<open>k\<close> makes one SCS call with \<^verbatim>\<open>eps = 1e-8\<close> on the problem built
  for \<open>k\<close> and succeeds exactly when the reported status is \<^verbatim>\<open>OPTIMAL\<close> and the reported
  value is below \<^verbatim>\<open>1e-6\<close>;
  the search returns the least \<open>k\<close> in \<open>1..max_rank\<close> whose check succeeds, having called the
  solver for \<open>1, ..., k\<close> in this order and for nothing after \<open>k\<close>; and when no candidate
  succeeds it returns \<^verbatim>\<open>None\<close> (a value, not an exception) after the calls for
  \<open>1, ..., max_rank\<close>.
\<close>

theorem rank_search_returns_first_feasible:
  assumes "np_all_nonneg mat" and "is_square mat" and "1 \<le> max_rank"
  shows "(\<forall>k cs. check_psd_rank solver mat k cs =
            (Inr (sol_status (solver (psd_rank_call mat k)) = OPTIMAL \<and>
                  float_lt (sol_value (solver (psd_rank_call mat k))) (Finite (1 / 10 ^ 6))),
             cs @ [psd_rank_call mat k]))
       \<and> (\<forall>k. call_solver (psd_rank_call mat k) = ''SCS'' \<and>
               call_eps (psd_rank_call mat k) = Some (1 / 10 ^ 8) \<and>
               check_psd_rank_problem mat k = Inr (call_problem (psd_rank_call mat k)))
       \<and> ((\<exists>k. 1 \<le> k \<and> k \<le> max_rank \<and> feasible_at solver mat k \<and>
              (\<forall>j. 1 \<le> j \<and> j < k \<longrightarrow> \<not> feasible_at solver mat j) \<and>
              positive_semidefinite_rank solver mat max_rank calls =
                (Inr (Some k), calls @ map (psd_rank_call mat) [1..k]))
          \<or> ((\<forall>k. 1 \<le> k \<and> k \<le> max_rank \<longrightarrow> \<not> feasible_at solver mat k) \<and>
              positive_semidefinite_rank solver mat max_rank calls =
                (Inr None, calls @ map (psd_rank_call mat) [1..max_rank])))"
proof (intro conjI allI)
  fix k cs
  show "check_psd_rank solver mat k cs =
            (Inr (sol_status (solver (psd_rank_call mat k)) = OPTIMAL \<and>
                  float_lt (sol_value (solver (psd_rank_call mat k))) (Finite (1 / 10 ^ 6))),
             cs @ [psd_rank_call mat k])"
    using check_psd_rank_square [OF assms(2)] by (simp add: feasible_at_def)
next
  fix k
  show "call_solver (psd_rank_call mat k) = ''SCS''"
    by (simp add: psd_rank_call_def scs_call_def)
  show "call_eps (psd_rank_call mat k) = Some (1 / 10 ^ 8)"
    by (simp add: psd_rank_call_def scs_call_def)
  show "check_psd_rank_problem mat k = Inr (call_problem (psd_rank_call mat k))"
    using check_psd_rank_problem_square [OF assms(2)]
    by (simp add: psd_rank_call_def scs_call_def)
next
  have "positive_semidefinite_rank solver mat max_rank calls =
          rank_search solver mat [1..max_rank] calls"
    using assms by (simp add: positive_semidefinite_rank_def)
  then show "(\<exists>k. 1 \<le> k \<and> k \<le> max_rank \<and> feasible_at solver mat k \<and>
              (\<forall>j. 1 \<le> j \<and> j < k \<longrightarrow> \<not> feasible_at solver mat j) \<and>
              positive_semidefinite_rank solver mat max_rank calls =
                (Inr (Some k), calls @ map (psd_rank_call mat) [1..k]))
          \<or> ((\<forall>k. 1 \<le> k \<and> k \<le> max_rank \<longrightarrow> \<not> feasible_at solver mat k) \<and>
              positive_semidefinite_rank solver mat max_rank calls =
                (Inr None, calls @ map (psd_rank_call mat) [1..max_rank]))"
    using rank_search_upto [OF assms(2), of 1 max_rank solver calls] by simp
qed

text \<open>
  Witness for C2: with a solver that reports candidate 1 infeasible and every other
  candidate optimal with value 0, the search on the 2-by-2 identity with
  \<open>max_rank = 3\<close> returns 2 after exactly the calls for 1 and 2.
\<close>

theorem rank_search_returns_first_feasible_witness:
  "np_all_nonneg identity2 \<and> is_square identity2 \<and> (1::int) \<le> 3
   \<and> positive_semidefinite_rank optimal_from_two identity2 3 []
       = (Inr (Some 2), [psd_rank_call identity2 1, psd_rank_call identity2 2])"
proof -
  have "1 \<le> (3::int)" by simp
  from rank_search_returns_first_feasible [OF identity2_valid this, of optimal_from_two "[]"]
  have "(\<exists>k. 1 \<le> k \<and> k \<le> 3 \<and> feasible_at optimal_from_two identity2 k \<and>
              (\<forall>j. 1 \<le> j \<and> j < k \<longrightarrow> \<not> feasible_at optimal_from_two identity2 j) \<and>
              positive_semidefinite_rank optimal_from_two identity2 3 [] =
                (Inr (Some k), [] @ map (psd_rank_call identity2) [1..k]))
          \<or> ((\<forall>k. 1 \<le> k \<and> k \<le> 3 \<longrightarrow> \<not> feasible_at optimal_from_two identity2 k) \<and>
              positive_semidefinite_rank optimal_from_two identity2 3 [] =
                (Inr None, [] @ map (psd_rank_call identity2) [1..3]))"
    by blast
  then show ?thesis
  proof (elim disjE exE conjE)
    fix k :: int
    assume k: "1 \<le> k" "k \<le> 3" "feasible_at optimal_from_two identity2 k"
      and least: "\<forall>j. 1 \<le> j \<and> j < k \<longrightarrow> \<not> feasible_at optimal_from_two identity2 j"
      and res: "positive_semidefinite_rank optimal_from_two identity2 3 [] =
                (Inr (Some k), [] @ map (psd_rank_call identity2) [1..k])"
    have "k \<noteq> 1" using k(3) feasible_identity2(1) by auto
    moreover have "\<not> 2 < k" using least feasible_identity2(2) by auto
    ultimately have "k = 2" using k(1) by simp
    moreover have "[1..2::int] = [1, 2]" by (simp add: upto_rec1)
    ultimately show ?thesis using res identity2_valid by simp
  next
    assume "\<forall>k. 1 \<le> k \<and> k \<le> 3 \<longrightarrow> \<not> feasible_at optimal_from_two identity2 k"
    then have False using feasible_identity2(2) by auto
    then show ?thesis ..
  qed
qed

text \<open>
  Claim C5. For a nonnegative square matrix and a candidate rank \<open>k\<close> the checker builds,
  and solves, a problem with a variable \<open>X\<close> of the shape of \<open>mat\<close>; its constraints are
  one block constraint \<open>[[X[i,j], mat[i,j]], [mat[i,j], X[j,i]]] >> 0\<close> for every entry
  \<open>(i, j)\<close> (at position \<open>i * ncols + j\<close>) followed by the single bound
  \<open>norm(X, nuc) <= k\<close>, and nothing else; its objective minimises the sum of the squared
  entries of \<open>X - mat\<close>.
\<close>

theorem feasibility_problem_constraints:
  assumes "np_all_nonneg mat" and "is_square mat"
  shows "\<exists>prob. check_psd_rank_problem mat k = Inr prob
     \<and> snd (check_psd_rank solver mat k calls) = calls @ [scs_call prob]
     \<and> prob_objective prob =
         Minimize (SumEntries (Square (Minus (Variable (nrows mat) (ncols mat) False) (Constant mat))))
     \<and> length (prob_constraints prob) = nrows mat * ncols mat + 1
     \<and> (\<forall>i<nrows mat. \<forall>j<ncols mat.
           prob_constraints prob ! (i * ncols mat + j) =
             PSD (Bmat [[Index (Variable (nrows mat) (ncols mat) False) i j, Scalar (item mat i j)],
                        [Scalar (item mat i j), Index (Variable (nrows mat) (ncols mat) False) j i]]))
     \<and> prob_constraints prob ! (nrows mat * ncols mat) =
         LessEq (NormNuc (Variable (nrows mat) (ncols mat) False)) (Scalar (real_of_int k))"
proof (intro exI [of _ "psd_feasibility_problem mat k"] conjI allI impI)
  show "check_psd_rank_problem mat k = Inr (psd_feasibility_problem mat k)"
    by (rule check_psd_rank_problem_square [OF assms(2)])
  show "snd (check_psd_rank solver mat k calls) = calls @ [scs_call (psd_feasibility_problem mat k)]"
    by (simp add: check_psd_rank_square [OF assms(2)] psd_rank_call_def)
  show "prob_objective (psd_feasibility_problem mat k) =
         Minimize (SumEntries (Square (Minus (Variable (nrows mat) (ncols mat) False) (Constant mat))))"
    by (simp add: psd_feasibility_problem_def x_variable_def)
  show "length (prob_constraints (psd_feasibility_problem mat k)) = nrows mat * ncols mat + 1"
    by (simp add: psd_feasibility_problem_def length_concat_grid)
  show "prob_constraints (psd_feasibility_problem mat k) ! (nrows mat * ncols mat) =
         LessEq (NormNuc (Variable (nrows mat) (ncols mat) False)) (Scalar (real_of_int k))"
    by (simp add: psd_feasibility_problem_def nth_append length_concat_grid x_variable_def)
next
  fix i j
  assume ij: "i < nrows mat" "j < ncols mat"
  have "i * ncols mat + j < Suc i * ncols mat"
    using ij(2) by simp
  also have "\<dots> \<le> nrows mat * ncols mat"
    using ij(1) by (intro mult_le_mono1) simp
  finally have "i * ncols mat + j < nrows mat * ncols mat" .
  then show "prob_constraints (psd_feasibility_problem mat k) ! (i * ncols mat + j) =
             PSD (Bmat [[Index (Variable (nrows mat) (ncols mat) False) i j, Scalar (item mat i j)],
                        [Scalar (item mat i j), Index (Variable (nrows mat) (ncols mat) False) j i]])"
    using ij
    by (simp add: psd_feasibility_problem_def nth_append length_concat_grid nth_concat_grid
        psd_block_def x_variable_def)
qed

text \<open>Witness for C5: the problem built for the 2-by-2 identity and \<open>k = 1\<close>.\<close>

theorem feasibility_problem_constraints_witness:
  "np_all_nonneg identity2 \<and> is_square identity2 \<and>
   (\<exists>prob. check_psd_rank_problem identity2 1 = Inr prob
     \<and> snd (check_psd_rank always_optimal identity2 1 []) = [scs_call prob]
     \<and> prob_objective prob =
         Minimize (SumEntries (Square (Minus (Variable 2 2 False) (Constant identity2))))
     \<and> length (prob_constraints prob) = 5
     \<and> prob_constraints prob ! 0 =
             PSD (Bmat [[Index (Variable 2 2 False) 0 0, Scalar 1],
                        [Scalar 1, Index (Variable 2 2 False) 0 0]])
     \<and> prob_constraints prob ! 1 =
             PSD (Bmat [[Index (Variable 2 2 False) 0 1, Scalar 0],
                        [Scalar 0, Index (Variable 2 2 False) 1 0]])
     \<and> prob_constraints prob ! 4 = LessEq (NormNuc (Variable 2 2 False)) (Scalar 1))"
proof -
  from feasibility_problem_constraints [OF identity2_valid, of 1 always_optimal "[]"]
  obtain prob where p: "check_psd_rank_problem identity2 1 = Inr prob"
     "snd (check_psd_rank always_optimal identity2 1 []) = [] @ [scs_call prob]"
     "prob_objective prob =
         Minimize (SumEntries (Square (Minus (Variable (nrows identity2) (ncols identity2) False) (Constant identity2))))"
     "length (prob_constraints prob) = nrows identity2 * ncols identity2 + 1"
     "\<forall>i<nrows identity2. \<forall>j<ncols identity2.
           prob_constraints prob ! (i * ncols identity2 + j) =
             PSD (Bmat [[Index (Variable (nrows identity2) (ncols identity2) False) i j, Scalar (item identity2 i j)],
                        [Scalar (item identity2 i j), Index (Variable (nrows identity2) (ncols identity2) False) j i]])"
     "prob_constraints prob ! (nrows identity2 * ncols identity2) =
         LessEq (NormNuc (Variable (nrows identity2) (ncols identity2) False)) (Scalar (real_of_int 1))"
    by blast
  have shape: "nrows identity2 = 2" "ncols identity2 = 2"
    by (simp_all add: identity2_def)
  have "prob_constraints prob ! (0 * ncols identity2 + 0) =
             PSD (Bmat [[Index (Variable 2 2 False) 0 0, Scalar 1],
                        [Scalar 1, Index (Variable 2 2 False) 0 0]])"
    using p(5) [rule_format, of 0 0] by (simp add: identity2_def)
  moreover have "prob_constraints prob ! (0 * ncols identity2 + 1) =
             PSD (Bmat [[Index (Variable 2 2 False) 0 1, Scalar 0],
                        [Scalar 0, Index (Variable 2 2 False) 1 0]])"
    using p(5) [rule_format, of 0 1] by (simp add: identity2_def)
  ultimately show ?thesis
    using p(1-4,6) identity2_valid by (simp add: shape)
qed

section \<open>Properties of the Bell-inequality bound\<close>

lemma exchange_perm_updates:
  assumes "x \<le> m"
  shows "([0..<m + 1][0 := x])[x := 0] = exchange_perm m x"
proof (rule nth_equalityI)
  show "length (([0..<m + 1][0 := x])[x := 0]) = length (exchange_perm m x)"
    by (simp add: exchange_perm_def)
next
  fix i
  assume "i < length (([0..<m + 1][0 := x])[x := 0])"
  then have i: "i < m + 1" by simp
  have "exchange_perm m x ! i = (if i = 0 then x else if i = x then 0 else i)"
    using i unfolding exchange_perm_def by (simp del: upt_Suc)
  moreover have "([0..<m + 1][0 := x])[x := 0] ! i = (if i = x then 0 else if i = 0 then x else i)"
    using i assms by (simp add: nth_list_update del: upt_Suc)
  ultimately show "([0..<m + 1][0 := x])[x := 0] ! i = exchange_perm m x ! i"
    by auto
qed

lemma MN_matrix_Inr: "x \<le> m \<Longrightarrow> MN_matrix m a x = Inr (MN_operator m a x)"
  using exchange_perm_updates [of x m]
  by (simp add: MN_matrix_def MN_operator_def and_then_def list_setitem_def del: upt_Suc)

lemma MN_matrix_IndexError: "m < x \<Longrightarrow> MN_matrix m a x = Inl IndexError"
  by (simp add: MN_matrix_def and_then_def list_setitem_def del: upt_Suc)

lemma prod_list_replicate_two: "prod_list (replicate n (2::nat)) = 2 ^ n"
  by (induction n) simp_all

lemma MN_operator_shape:
  "nrows (MN_operator m a x) = 2 ^ (m + 1)" "ncols (MN_operator m a x) = 2 ^ (m + 1)"
  "nrows (permutation_operator (replicate (m + 1) 2) perm) = 2 ^ (m + 1)"
  "ncols (permutation_operator (replicate (m + 1) 2) perm) = 2 ^ (m + 1)"
  by (simp_all add: MN_operator_def np_add_def np_scale_def np_eye_def permutation_operator_def
      prod_list_replicate_two del: replicate_Suc)

lemma np_add_as_add_items:
  "np_add A (np_scale c K) = add_items A (\<lambda>i j. c * item K i j)"
  by (simp add: np_add_def np_scale_def add_items_def)

lemma add_items_twice:
  "add_items (add_items A f) g = add_items A (\<lambda>i j. f i j + g i j)"
  by (simp add: add_items_def add.assoc)

lemma for_each_accumulate:
  "(\<And>i s. i \<in> set is \<Longrightarrow> body i s = Inr (add_items s (g i))) \<Longrightarrow>
   for_each is body s = Inr (add_items s (\<lambda>r c. \<Sum>i\<leftarrow>is. g i r c))"
proof (induction "is" arbitrary: s)
  case Nil
  show ?case by (simp add: add_items_def)
next
  case (Cons i "is")
  have "for_each (i # is) body s = for_each is body (add_items s (g i))"
    using Cons.prems [of i s] by simp
  also have "\<dots> = Inr (add_items (add_items s (g i)) (\<lambda>r c. \<Sum>i\<leftarrow>is. g i r c))"
    using Cons.prems by (intro Cons.IH) simp
  finally show ?case
    by (simp add: add_items_twice)
qed

lemma bell_term_valid:
  assumes "bell_valid J ac bc av bv" and "a < 2" and "b < 2"
    and "1 \<le> x" and "x \<le> nrows J" and "1 \<le> y" and "y \<le> nrows J"
  shows "bell_term (nrows J) J ac bc av bv a b x y obj =
           Inr (add_items obj (\<lambda>r c. to_float (np_coeff J ac bc av bv a b x y)
                  * item (np_kron (MN_operator (nrows J) a x) (MN_operator (nrows J) b y)) r c))"
proof -
  have range: "x - 1 < nrows J" "y - 1 < nrows J"
    using assms(4-7) by arith+
  have "np_getitem J (x - 1) (y - 1) = Inr (item J (x - 1) (y - 1))"
    using assms(1) range by (simp add: np_getitem_def bell_valid_def)
  moreover have "vec_getitem av a = Inr (av ! a)" "vec_getitem bv b = Inr (bv ! b)"
    using assms(1-3) by (simp_all add: vec_getitem_def bell_valid_def)
  moreover have "vec_getitem ac (x - 1) = Inr (ac ! (x - 1))"
    "vec_getitem bc (y - 1) = Inr (bc ! (y - 1))"
    using assms(1) range by (simp_all add: vec_getitem_def bell_valid_def)
  moreover note MN_matrix_Inr [OF assms(5), of a] MN_matrix_Inr [OF assms(7), of b]
  ultimately show ?thesis
    by (auto simp: bell_term_def and_then_def np_coeff_def Let_def np_add_as_add_items)
qed

lemma bell_loops_valid:
  assumes valid: "bell_valid J ac bc av bv"
  shows "for_each [0..<2] (\<lambda>a.
           for_each [0..<2] (\<lambda>b.
             for_each [1..<nrows J + 1] (\<lambda>x.
               for_each [1..<nrows J + 1] (\<lambda>y.
                 bell_term (nrows J) J ac bc av bv a b x y)))) obj
         = Inr (add_items obj (bell_sum J ac bc av bv))"
proof -
  let ?T = "\<lambda>a b x y r c. to_float (np_coeff J ac bc av bv a b x y)
              * item (np_kron (MN_operator (nrows J) a x) (MN_operator (nrows J) b y)) r c"
  let ?ms = "[1..<nrows J + 1]"
  have ys: "for_each ?ms (\<lambda>y. bell_term (nrows J) J ac bc av bv a b x y) s
              = Inr (add_items s (\<lambda>r c. \<Sum>y\<leftarrow>?ms. ?T a b x y r c))"
    if "a \<in> set [0..<2]" "b \<in> set [0..<2]" "x \<in> set ?ms" for a b x s
    using that by (intro for_each_accumulate bell_term_valid [OF valid]) (auto simp del: upt_Suc)
  have xs: "for_each ?ms (\<lambda>x. for_each ?ms (\<lambda>y. bell_term (nrows J) J ac bc av bv a b x y)) s
              = Inr (add_items s (\<lambda>r c. \<Sum>x\<leftarrow>?ms. \<Sum>y\<leftarrow>?ms. ?T a b x y r c))"
    if "a \<in> set [0..<2]" "b \<in> set [0..<2]" for a b s
    using that by (intro for_each_accumulate ys) 
  have bs: "for_each [0..<2] (\<lambda>b. for_each ?ms (\<lambda>x. for_each ?ms
                (\<lambda>y. bell_term (nrows J) J ac bc av bv a b x y))) s
              = Inr (add_items s (\<lambda>r c. \<Sum>b\<leftarrow>[0..<2]. \<Sum>x\<leftarrow>?ms. \<Sum>y\<leftarrow>?ms. ?T a b x y r c))"
    if "a \<in> set [0..<2]" for a s
    using that by (intro for_each_accumulate xs)
  have "for_each [0..<2] (\<lambda>a. for_each [0..<2] (\<lambda>b. for_each ?ms (\<lambda>x. for_each ?ms
                (\<lambda>y. bell_term (nrows J) J ac bc av bv a b x y)))) obj
              = Inr (add_items obj
                  (\<lambda>r c. \<Sum>a\<leftarrow>[0..<2]. \<Sum>b\<leftarrow>[0..<2]. \<Sum>x\<leftarrow>?ms. \<Sum>y\<leftarrow>?ms. ?T a b x y r c))"
    by (intro for_each_accumulate bs)
  moreover have "(\<lambda>r c. \<Sum>a\<leftarrow>[0..<2]. \<Sum>b\<leftarrow>[0..<2]. \<Sum>x\<leftarrow>?ms. \<Sum>y\<leftarrow>?ms. ?T a b x y r c)
                 = bell_sum J ac bc av bv"
    unfolding bell_sum_def interv_sum_list_conv_sum_set_nat
    by (simp add: lessThan_atLeast0 atLeastLessThanSuc_atLeastAtMost del: upt_Suc)
  ultimately show ?thesis by simp
qed

lemma bell_objective_valid:
  assumes "bell_valid J ac bc av bv"
  shows "bell_objective J ac bc av bv =
           Inr \<lparr>nrows = 2 ^ (2 * nrows J + 2), ncols = 2 ^ (2 * nrows J + 2),
                item = (\<lambda>r c. (bell_sum J ac bc av bv r c + bell_sum J ac bc av bv c r) / 2)\<rparr>"
  unfolding bell_objective_def Let_def bell_loops_valid [OF assms]
  by (simp add: and_then_def add_items_def np_zeros_def np_divide_def np_add_def
      np_transpose_def)

lemma filter_empty_subseqs: "filter (\<lambda>ys. ys = []) (subseqs xs) = [[]]"
  by (induction xs) (simp_all add: Let_def filter_map comp_def)

lemma combinations_eq_filter_subseqs:
  "combinations xs r = filter (\<lambda>ys. length ys = r) (subseqs xs)"
proof (induction xs r rule: combinations.induct)
  case (1 xs)
  then show ?case by (simp add: filter_empty_subseqs)
next
  case (2 r)
  then show ?case by simp
next
  case (3 x xs r)
  then show ?case by (simp add: Let_def filter_map comp_def)
qed

lemma combinations_map: "combinations (map f xs) r = map (map f) (combinations xs r)"
  by (induction xs r rule: combinations.induct) simp_all

lemma map_pred_upt: "map (\<lambda>x. x - 1) [1..<n] = [0..<n - 1]"
  by (rule nth_equalityI) simp_all

lemma combinations_props:
  assumes "distinct xs" and "ys \<in> set (combinations xs r)"
  shows "distinct ys" and "set ys \<subseteq> set xs" and "card (set ys) = r"
proof -
  from assms(2) have sub: "ys \<in> set (subseqs xs)" and len: "length ys = r"
    by (simp_all add: combinations_eq_filter_subseqs)
  show "distinct ys"
    using sub assms(1) by (rule subseqs_distinctD)
  then show "card (set ys) = r"
    using len by (simp add: distinct_card)
  show "set ys \<subseteq> set xs"
    using sub subseqs_powset [of xs] by blast
qed

lemma distinct_set_combinations:
  "distinct xs \<Longrightarrow> distinct (map set (combinations xs r))"
  using distinct_set_subseqs [of xs]
  by (simp add: combinations_eq_filter_subseqs distinct_map_filter)

lemma set_combinations:
  assumes "distinct xs"
  shows "set ` set (combinations xs r) = {S. S \<subseteq> set xs \<and> card S = r}"
proof (intro equalityI subsetI)
  fix S assume "S \<in> set ` set (combinations xs r)"
  then obtain ys where "ys \<in> set (combinations xs r)" "S = set ys"
    by blast
  then show "S \<in> {S. S \<subseteq> set xs \<and> card S = r}"
    using combinations_props(2,3) [OF assms, of ys r] by simp
next
  fix S assume "S \<in> {S. S \<subseteq> set xs \<and> card S = r}"
  then have S: "S \<subseteq> set xs" "card S = r" by simp_all
  then obtain ys where ys: "ys \<in> set (subseqs xs)" "set ys = S"
    using subset_subseqs [of S xs] by auto
  then have "distinct ys"
    using assms subseqs_distinctD by blast
  then have "length ys = r"
    using ys(2) S(2) distinct_card by fastforce
  then show "S \<in> set ` set (combinations xs r)"
    using ys by (auto simp: combinations_eq_filter_subseqs)
qed

lemma sorted_subseqs:
  "sorted_wrt (<) xs \<Longrightarrow> ys \<in> set (subseqs xs) \<Longrightarrow> sorted_wrt (<) (ys :: nat list)"
proof (induction xs arbitrary: ys)
  case Nil
  then show ?case by simp
next
  case (Cons x xs)
  from Cons.prems(2) consider zs where "ys = x # zs" "zs \<in> set (subseqs xs)"
    | "ys \<in> set (subseqs xs)"
    by (auto simp: Let_def)
  then show ?case
  proof cases
    case 1
    moreover have "set zs \<subseteq> set xs"
      using 1(2) subseqs_powset [of xs] by blast
    ultimately show ?thesis
      using Cons by auto
  next
    case 2
    then show ?thesis using Cons by simp
  qed
qed

lemma distinct_set_ppt_sizes:
  assumes "distinct xs" and "distinct szs"
  shows "distinct (map set (concat (map (combinations xs) szs)))"
  using assms(2)
proof (induction szs)
  case Nil
  then show ?case by simp
next
  case (Cons sz szs)
  have "set ` set (combinations xs sz) \<inter> set ` set (concat (map (combinations xs) szs)) = {}"
  proof (rule ccontr)
    assume "\<not> ?thesis"
    then obtain S where a: "S \<in> set ` set (combinations xs sz)"
      and b: "S \<in> set ` set (concat (map (combinations xs) szs))"
      by blast
    from a have "card S = sz"
      using combinations_props(3) [OF assms(1)] by auto
    moreover from b obtain sz' where "sz' \<in> set szs" "card S = sz'"
      using combinations_props(3) [OF assms(1)] by auto
    ultimately show False
      using Cons.prems by auto
  qed
  then show ?case
    using Cons distinct_set_combinations [OF assms(1), of sz] by simp
qed

lemma distinct_ppt_partitions: "distinct (map set (ppt_partitions m))"
  unfolding ppt_partitions_def by (rule distinct_set_ppt_sizes) simp_all

lemma set_ppt_partitions:
  "set ` set (ppt_partitions m) = {S. S \<subseteq> {0..<2 * m - 2} \<and> 1 \<le> card S \<and> card S \<le> m}"
proof -
  have "set ` set (ppt_partitions m)
          = (\<Union>sz\<in>{1..<m + 1}. set ` set (combinations [0..<2 * m - 2] sz))"
    unfolding ppt_partitions_def by (auto simp del: upt_Suc)
  also have "\<dots> = (\<Union>sz\<in>{1..<m + 1}. {S. S \<subseteq> {0..<2 * m - 2} \<and> card S = sz})"
    by (simp add: set_combinations del: upt_Suc)
  also have "\<dots> = {S. S \<subseteq> {0..<2 * m - 2} \<and> 1 \<le> card S \<and> card S \<le> m}"
    by auto
  finally show ?thesis .
qed

lemma sorted_ppt_partitions: "p \<in> set (ppt_partitions m) \<Longrightarrow> sorted_wrt (<) p"
proof -
  assume "p \<in> set (ppt_partitions m)"
  then have "p \<in> set (subseqs [0..<2 * m - 2])"
    by (auto simp: ppt_partitions_def combinations_eq_filter_subseqs simp del: upt_Suc)
  moreover have "sorted_wrt (<) [0..<2 * m - 2]"
    by (rule sorted_wrt_upt)
  ultimately show ?thesis
    by (rule sorted_subseqs [rotated])
qed

lemma fold_append_map:
  "fold (\<lambda>p cs. cs @ [f p]) ps cs = cs @ map f ps"
  by (induction ps arbitrary: cs) simp_all

lemma fold_fold_append:
  "fold (\<lambda>sz. fold (\<lambda>p cs. cs @ [f p]) (g sz)) szs cs = cs @ map f (concat (map g szs))"
  by (induction szs arbitrary: cs) (simp_all add: fold_append_map)

lemma bell_constraints_eq:
  "bell_constraints m =
     [Equals (Trace (bell_W m)) (Scalar 1), PSD (bell_W m)]
     @ map (\<lambda>S. PSD (PartialTranspose (bell_W m) S (4 # replicate (2 * (m - 1)) 2)))
         (ppt_partitions m)"
proof -
  have shift: "map (map (\<lambda>x. x - 1)) (combinations [1..<2 * m - 1] sz)
                 = combinations [0..<2 * m - 2] sz" for sz
  proof -
    have "map (\<lambda>x. x - 1) [1..<2 * m - 1] = [0..<2 * m - 2]"
      using map_pred_upt [of "2 * m - 1"] by (simp add: numeral_2_eq_2)
    then show ?thesis
      using combinations_map [of "\<lambda>x. x - 1" "[1..<2 * m - 1]" sz] by simp
  qed
  have "bell_constraints m =
     [Equals (Trace (bell_W m)) (Scalar 1), PSD (bell_W m)]
     @ map (\<lambda>p. PSD (PartialTranspose (bell_W m) (map (\<lambda>x. x - 1) p)
                       (4 # replicate (2 * (m - 1)) 2)))
         (concat (map (combinations [1..<2 * m - 1]) [1..<m + 1]))"
    unfolding bell_constraints_def by (rule fold_fold_append)
  also have "map (\<lambda>p. PSD (PartialTranspose (bell_W m) (map (\<lambda>x. x - 1) p)
                       (4 # replicate (2 * (m - 1)) 2)))
         (concat (map (combinations [1..<2 * m - 1]) [1..<m + 1]))
     = map (\<lambda>S. PSD (PartialTranspose (bell_W m) S (4 # replicate (2 * (m - 1)) 2)))
         (map (map (\<lambda>x. x - 1)) (concat (map (combinations [1..<2 * m - 1]) [1..<m + 1])))"
    by (simp add: comp_def del: upt_Suc)
  also have "map (map (\<lambda>x. x - 1)) (concat (map (combinations [1..<2 * m - 1]) [1..<m + 1]))
               = ppt_partitions m"
    using shift unfolding ppt_partitions_def map_concat
    by (simp add: comp_def del: upt_Suc)
  finally show ?thesis .
qed

lemma bell_inequality_max_valid:
  assumes "bell_valid J ac bc av bv"
  shows "bell_inequality_max solver J ac bc av bv calls =
           (Inr (sol_value (solver (bell_call J ac bc av bv))),
            calls @ [bell_call J ac bc av bv])"
  using assms bell_objective_valid [OF assms]
  by (simp add: bell_inequality_max_def Let_def bell_call_def bell_operator_def bell_valid_def)

lemma for_each_error:
  "(\<And>i s e. body i s = Inl e \<Longrightarrow> P e) \<Longrightarrow> for_each is body s = Inl e \<Longrightarrow> P e"
  by (induction "is" arbitrary: s) (auto split: sum.splits)

lemma MN_matrix_error: "MN_matrix m a x = Inl e \<Longrightarrow> e = IndexError"
  by (auto simp: MN_matrix_def and_then_def list_setitem_def split: if_splits sum.splits
      simp del: upt_Suc)

lemma bell_term_error:
  assumes "bell_term m J ac bc av bv a b x y obj = Inl e"
  shows "e = IndexError"
proof -
  have get: "np_getitem A i j = Inl e' \<Longrightarrow> e' = IndexError"
    "vec_getitem v i = Inl e' \<Longrightarrow> e' = IndexError" for A v i j e'
    by (auto simp: np_getitem_def vec_getitem_def split: if_splits)
  from assms show ?thesis
    unfolding bell_term_def and_then_def
    by (auto split: sum.splits if_splits dest: get MN_matrix_error)
qed

lemma bell_objective_error:
  assumes "bell_objective J ac bc av bv = Inl e"
  shows "e = IndexError"
proof -
  have "for_each [0..<2] (\<lambda>a.
           for_each [0..<2] (\<lambda>b.
             for_each [1..<nrows J + 1] (\<lambda>x.
               for_each [1..<nrows J + 1] (\<lambda>y.
                 bell_term (nrows J) J ac bc av bv a b x y))))
           (np_zeros (2 ^ (2 * nrows J + 2)) (2 ^ (2 * nrows J + 2))) = Inl e"
    using assms unfolding bell_objective_def Let_def and_then_def
    by (auto split: sum.splits)
  then show ?thesis
    by (elim for_each_error [rotated] bell_term_error)
qed

lemma wrap64_id: "- (2 ^ 63) \<le> n \<Longrightarrow> n < 2 ^ 63 \<Longrightarrow> wrap64 n = n"
  by (simp add: wrap64_def)

lemma np_mul_small:
  assumes "\<bar>a\<bar> \<le> A" and "\<bar>b\<bar> \<le> B" and "A * B < 2 ^ 63"
  shows "np_mul (Int64 a) (Int64 b) = Int64 (a * b)" and "\<bar>a * b\<bar> \<le> A * B"
proof -
  have "0 \<le> A" using assms(1) by linarith
  show bound: "\<bar>a * b\<bar> \<le> A * B"
    unfolding abs_mult using assms(1,2) \<open>0 \<le> A\<close> by (intro mult_mono) simp_all
  then have "- (2 ^ 63) \<le> a * b" "a * b < 2 ^ 63"
    using assms(3) by linarith+
  then show "np_mul (Int64 a) (Int64 b) = Int64 (a * b)"
    by (simp add: wrap64_id)
qed

lemma np_plus_small:
  assumes "\<bar>a\<bar> \<le> A" and "\<bar>b\<bar> \<le> B" and "A + B < 2 ^ 63"
  shows "np_plus (Int64 a) (Int64 b) = Int64 (a + b)" and "\<bar>a + b\<bar> \<le> A + B"
proof -
  show bound: "\<bar>a + b\<bar> \<le> A + B"
    using assms(1,2) by linarith
  then have "- (2 ^ 63) \<le> a + b" "a + b < 2 ^ 63"
    using assms(3) by linarith+
  then show "np_plus (Int64 a) (Int64 b) = Int64 (a + b)"
    by (simp add: wrap64_id)
qed

lemma coeff_small_ints:
  assumes "small_int64 j" "small_int64 va" "small_int64 vb" "small_int64 ca" "small_int64 cb"
  shows "to_float (np_mul (np_mul j va) vb) = to_float j * to_float va * to_float vb"
    and "to_float (np_plus (np_mul (np_mul j va) vb) (np_mul ca va))
           = to_float j * to_float va * to_float vb + to_float ca * to_float va"
    and "to_float (np_plus (np_mul (np_mul j va) vb) (np_mul cb vb))
           = to_float j * to_float va * to_float vb + to_float cb * to_float vb"
    and "to_float (np_plus (np_plus (np_mul (np_mul j va) vb) (np_mul ca va)) (np_mul cb vb))
           = to_float j * to_float va * to_float vb + to_float ca * to_float va
             + to_float cb * to_float vb"
proof -
  have small_int: "\<exists>n. v = Int64 n \<and> \<bar>n\<bar> \<le> 2 ^ 20" if "small_int64 v" for v
    using that by (cases v) simp_all
  from assms obtain j' va' vb' ca' cb' where
    eq: "j = Int64 j'" "va = Int64 va'" "vb = Int64 vb'" "ca = Int64 ca'" "cb = Int64 cb'"
    and small: "\<bar>j'\<bar> \<le> 2 ^ 20" "\<bar>va'\<bar> \<le> 2 ^ 20" "\<bar>vb'\<bar> \<le> 2 ^ 20"
      "\<bar>ca'\<bar> \<le> 2 ^ 20" "\<bar>cb'\<bar> \<le> 2 ^ 20"
    using small_int by metis
  note p1 = np_mul_small [OF small(1) small(2), simplified]
  note p2 = np_mul_small [OF p1(2) small(3), simplified]
  note q = np_mul_small [OF small(4) small(2), simplified]
  note r = np_mul_small [OF small(5) small(3), simplified]
  note s1 = np_plus_small [OF p2(2) q(2), simplified]
  note s1' = np_plus_small [OF p2(2) r(2), simplified]
  note s2 = np_plus_small [OF s1(2) r(2), simplified]
  show "to_float (np_mul (np_mul j va) vb) = to_float j * to_float va * to_float vb"
    by (simp add: eq p1 p2)
  show "to_float (np_plus (np_mul (np_mul j va) vb) (np_mul ca va))
           = to_float j * to_float va * to_float vb + to_float ca * to_float va"
    by (simp add: eq p1 p2 q s1)
  show "to_float (np_plus (np_mul (np_mul j va) vb) (np_mul cb vb))
           = to_float j * to_float va * to_float vb + to_float cb * to_float vb"
    by (simp add: eq p1 p2 r s1')
  show "to_float (np_plus (np_plus (np_mul (np_mul j va) vb) (np_mul ca va)) (np_mul cb vb))
           = to_float j * to_float va * to_float vb + to_float ca * to_float va
             + to_float cb * to_float vb"
    by (simp add: eq p1 p2 q r s1 s2)
qed

lemma coeff_floats:
  assumes "is_float64 j" "is_float64 va" "is_float64 vb" "is_float64 ca" "is_float64 cb"
  shows "to_float (np_mul (np_mul j va) vb) = to_float j * to_float va * to_float vb"
    and "to_float (np_plus (np_mul (np_mul j va) vb) (np_mul ca va))
           = to_float j * to_float va * to_float vb + to_float ca * to_float va"
    and "to_float (np_plus (np_mul (np_mul j va) vb) (np_mul cb vb))
           = to_float j * to_float va * to_float vb + to_float cb * to_float vb"
    and "to_float (np_plus (np_plus (np_mul (np_mul j va) vb) (np_mul ca va)) (np_mul cb vb))
           = to_float j * to_float va * to_float vb + to_float ca * to_float va
             + to_float cb * to_float vb"
proof -
  have float: "\<exists>x. v = Float64 x" if "is_float64 v" for v
    using that by (cases v) simp_all
  from assms obtain j' va' vb' ca' cb' where
    eq: "j = Float64 j'" "va = Float64 va'" "vb = Float64 vb'" "ca = Float64 ca'"
      "cb = Float64 cb'"
    using float by metis
  show "to_float (np_mul (np_mul j va) vb) = to_float j * to_float va * to_float vb"
    "to_float (np_plus (np_mul (np_mul j va) vb) (np_mul ca va))
           = to_float j * to_float va * to_float vb + to_float ca * to_float va"
    "to_float (np_plus (np_mul (np_mul j va) vb) (np_mul cb vb))
           = to_float j * to_float va * to_float vb + to_float cb * to_float vb"
    "to_float (np_plus (np_plus (np_mul (np_mul j va) vb) (np_mul ca va)) (np_mul cb vb))
           = to_float j * to_float va * to_float vb + to_float ca * to_float va
             + to_float cb * to_float vb"
    by (simp_all add: eq)
qed

lemma all_entries_items:
  assumes "all_entries P J ac bc av bv" and "bell_valid J ac bc av bv"
    and "a < 2" and "b < 2" and "1 \<le> x" and "x \<le> nrows J" and "1 \<le> y" and "y \<le> nrows J"
  shows "P (item J (x - 1) (y - 1))" "P (av ! a)" "P (bv ! b)" "P (ac ! (x - 1))"
    "P (bc ! (y - 1))"
proof -
  have range: "x - 1 < nrows J" "y - 1 < nrows J"
    using assms(5-8) by arith+
  show "P (item J (x - 1) (y - 1))"
    using assms(1,2) range by (simp add: all_entries_def bell_valid_def list_all_iff)
  show "P (av ! a)" "P (bv ! b)" "P (ac ! (x - 1))" "P (bc ! (y - 1))"
    using assms(1-4) range by (simp_all add: all_entries_def bell_valid_def list_all_length)
qed

lemma np_coeff_cases:
  assumes "to_float (np_mul (np_mul j va) vb) = to_float j * to_float va * to_float vb"
    and "to_float (np_plus (np_mul (np_mul j va) vb) (np_mul ca va))
           = to_float j * to_float va * to_float vb + to_float ca * to_float va"
    and "to_float (np_plus (np_mul (np_mul j va) vb) (np_mul cb vb))
           = to_float j * to_float va * to_float vb + to_float cb * to_float vb"
    and "to_float (np_plus (np_plus (np_mul (np_mul j va) vb) (np_mul ca va)) (np_mul cb vb))
           = to_float j * to_float va * to_float vb + to_float ca * to_float va
             + to_float cb * to_float vb"
    and "j = item J (x - 1) (y - 1)" and "va = av ! a" and "vb = bv ! b"
    and "ca = ac ! (x - 1)" and "cb = bc ! (y - 1)"
  shows "to_float (np_coeff J ac bc av bv a b x y) = bell_coeff J ac bc av bv a b x y"
proof (cases "x = 1")
  case x1: True
  show ?thesis
  proof (cases "y = 1")
    case y1: True
    show ?thesis
      unfolding np_coeff_def bell_coeff_def Let_def if_P [OF x1] if_P [OF y1]
        assms(5-9) [symmetric]
      by (rule assms(4))
  next
    case y0: False
    show ?thesis
      unfolding np_coeff_def bell_coeff_def Let_def if_P [OF x1] if_not_P [OF y0]
        assms(5-9) [symmetric] add.right_neutral
      by (rule assms(3))
  qed
next
  case x0: False
  show ?thesis
  proof (cases "y = 1")
    case y1: True
    show ?thesis
      unfolding np_coeff_def bell_coeff_def Let_def if_not_P [OF x0] if_P [OF y1]
        assms(5-9) [symmetric] add.right_neutral
      by (rule assms(2))
  next
    case y0: False
    show ?thesis
      unfolding np_coeff_def bell_coeff_def Let_def if_not_P [OF x0] if_not_P [OF y0]
        assms(5-9) [symmetric] add.right_neutral
      by (rule assms(1))
  qed
qed

lemma np_coeff_exact:
  assumes "all_entries is_float64 J ac bc av bv \<or> all_entries small_int64 J ac bc av bv"
    and "bell_valid J ac bc av bv"
    and "a < 2" and "b < 2" and "1 \<le> x" and "x \<le> nrows J" and "1 \<le> y" and "y \<le> nrows J"
  shows "to_float (np_coeff J ac bc av bv a b x y) = bell_coeff J ac bc av bv a b x y"
  using assms(1)
proof
  assume "all_entries is_float64 J ac bc av bv"
  note all_entries_items [OF this assms(2-8)]
  from coeff_floats [OF this] show ?thesis
    by (rule np_coeff_cases) (rule refl)+
next
  assume "all_entries small_int64 J ac bc av bv"
  note all_entries_items [OF this assms(2-8)]
  from coeff_small_ints [OF this] show ?thesis
    by (rule np_coeff_cases) (rule refl)+
qed

lemma bell_sum_exact:
  assumes "all_entries is_float64 J ac bc av bv \<or> all_entries small_int64 J ac bc av bv"
    and "bell_valid J ac bc av bv"
  shows "bell_sum J ac bc av bv r c = claimed_sum J ac bc av bv r c"
  unfolding bell_sum_def claimed_sum_def
  by (intro sum.cong refl arg_cong2 [where f = "(*)"] np_coeff_exact [OF assms]) simp_all





lemma ppt_partitions_two: "ppt_partitions 2 = [[0], [1], [0, 1]]"
  by (simp add: ppt_partitions_def numeral_2_eq_2 upt_rec)

lemma MN_operator_one:
  "item (MN_operator 1 1 1) 0 0 = 0" "item (MN_operator 1 1 1) 1 2 = - 1"
  "item (MN_operator 1 1 1) 1 1 = 1" "exchange_perm 1 1 = [1, 0]"
  by (simp_all add: MN_operator_def np_add_def np_scale_def np_eye_def
      permutation_operator_def exchange_perm_def digit_def numeral_2_eq_2)




lemma chsh_valid:
  "bell_valid chsh [Int64 0, Int64 0] [Int64 0, Int64 0] [Int64 1, Int64 (- 1)]
     [Int64 1, Int64 (- 1)]"
  by (simp add: bell_valid_def chsh_def)

text \<open>
  Claim C8. For a setting index \<open>x \<le> m\<close>, \<^verbatim>\<open>MN_matrix(m, a, x)\<close> raises nothing and is the
  matrix \<open>a * I + (-1)^a * P\<close> of shape \<open>2^(m+1)\<close> by \<open>2^(m+1)\<close>, where \<open>P\<close> is the
  permutation operator on \<open>m + 1\<close> subsystems of dimension 2 for the list the two
  assignments build: it has \<open>x\<close> at position 0, \<open>0\<close> at position \<open>x\<close> and \<open>k\<close> at every
  other position \<open>k\<close>, and is the identity list when \<open>x = 0\<close>. The result is a function of
  \<open>(m, a, x)\<close> alone. The bounds \<open>m \<ge> 1\<close> and \<open>a \<in> {0, 1}\<close> of the claim are not needed.
\<close>

theorem MN_matrix_exchange_operator:
  assumes "x \<le> m"
  shows "MN_matrix m a x = Inr (MN_operator m a x)
       \<and> nrows (MN_operator m a x) = 2 ^ (m + 1) \<and> ncols (MN_operator m a x) = 2 ^ (m + 1)
       \<and> nrows (permutation_operator (replicate (m + 1) 2) (exchange_perm m x)) = 2 ^ (m + 1)
       \<and> ncols (permutation_operator (replicate (m + 1) 2) (exchange_perm m x)) = 2 ^ (m + 1)
       \<and> (\<forall>i j. item (MN_operator m a x) i j =
                  real a * (if i = j then 1 else 0)
                  + (- 1) ^ a * item (permutation_operator (replicate (m + 1) 2)
                                        (exchange_perm m x)) i j)
       \<and> length (exchange_perm m x) = m + 1
       \<and> exchange_perm m x ! 0 = x \<and> exchange_perm m x ! x = 0
       \<and> (\<forall>k. k \<le> m \<and> k \<noteq> 0 \<and> k \<noteq> x \<longrightarrow> exchange_perm m x ! k = k)
       \<and> (x = 0 \<longrightarrow> exchange_perm m x = [0..<m + 1])"
proof (intro conjI allI impI)
  show "MN_matrix m a x = Inr (MN_operator m a x)"
    by (rule MN_matrix_Inr [OF assms])
  show "nrows (MN_operator m a x) = 2 ^ (m + 1)" "ncols (MN_operator m a x) = 2 ^ (m + 1)"
    "nrows (permutation_operator (replicate (m + 1) 2) (exchange_perm m x)) = 2 ^ (m + 1)"
    "ncols (permutation_operator (replicate (m + 1) 2) (exchange_perm m x)) = 2 ^ (m + 1)"
    by (rule MN_operator_shape)+
  show "length (exchange_perm m x) = m + 1"
    by (simp add: exchange_perm_def)
  have nth: "exchange_perm m x ! k = (if k = 0 then x else if k = x then 0 else k)"
    if "k \<le> m" for k
    using that unfolding exchange_perm_def by (simp del: upt_Suc)
  show "exchange_perm m x ! 0 = x"
    using nth [of 0] by simp
  show "exchange_perm m x ! x = 0"
    using nth [OF assms] by simp
  show "exchange_perm m x ! k = k" if "k \<le> m \<and> k \<noteq> 0 \<and> k \<noteq> x" for k
    using that nth [of k] by simp
  show "exchange_perm m x = [0..<m + 1]" if "x = 0"
    using that unfolding exchange_perm_def by (intro map_idI) simp
  show "item (MN_operator m a x) i j =
          real a * (if i = j then 1 else 0)
          + (- 1) ^ a * item (permutation_operator (replicate (m + 1) 2)
                                (exchange_perm m x)) i j" for i j
    by (simp add: MN_operator_def np_add_def np_scale_def np_eye_def)
qed

text \<open>
  Witness for C8, at \<open>m = 1\<close>, \<open>a = 1\<close>, \<open>x = 1\<close>: the operator is the 4-by-4 identity minus
  the swap of two qubits.
\<close>

theorem MN_matrix_exchange_operator_witness:
  "(1::nat) \<le> 1 \<and> MN_matrix 1 1 1 = Inr (MN_operator 1 1 1)
   \<and> nrows (MN_operator 1 1 1) = 4 \<and> ncols (MN_operator 1 1 1) = 4
   \<and> exchange_perm 1 1 = [1, 0]
   \<and> item (MN_operator 1 1 1) 0 0 = 0 \<and> item (MN_operator 1 1 1) 1 2 = - 1
   \<and> item (MN_operator 1 1 1) 1 1 = 1"
  using MN_matrix_exchange_operator [of 1 1 1] MN_operator_one
  by simp




text \<open>
  Claim C3. For a valid input with \<open>m\<close> settings the problem that is solved maximises
  \<open>trace(Z * obj_mat)\<close>, with \<open>Z\<close> the three swaps applied to the symmetric variable \<open>W\<close> of
  shape \<open>2^(2m)\<close> by \<open>2^(2m)\<close>, and its constraints are exactly \<open>trace(W) = 1\<close>, \<open>W >> 0\<close>
  and one constraint \<open>partial_transpose(W, S, [4] + [2]*(2(m-1))) >> 0\<close> for every entry \<open>S\<close>
  of the list of PPT partitions. That list holds every subset of \<open>[0, 2m-2)\<close> with
  between 1 and \<open>m\<close> elements, each once, as the increasing list of its elements.
\<close>

theorem bell_sdp_one_constraint_per_subset:
  assumes "bell_valid joint_coe a_coe b_coe a_val b_val"
  shows "\<exists>obj_mat.
           bell_objective joint_coe a_coe b_coe a_val b_val = Inr obj_mat
         \<and> snd (bell_inequality_max solver joint_coe a_coe b_coe a_val b_val calls) =
             calls @
             [mosek_call
               \<lparr>prob_objective =
                  Maximize (Trace (MatMul (bell_Z (nrows joint_coe)) (Constant obj_mat))),
                prob_constraints =
                  [Equals (Trace (bell_W (nrows joint_coe))) (Scalar 1),
                   PSD (bell_W (nrows joint_coe))]
                  @ map (\<lambda>S. PSD (PartialTranspose (bell_W (nrows joint_coe)) S
                                    (4 # replicate (2 * (nrows joint_coe - 1)) 2)))
                      (ppt_partitions (nrows joint_coe))\<rparr>]
         \<and> bell_W (nrows joint_coe) =
             Variable (2 ^ (2 * nrows joint_coe)) (2 ^ (2 * nrows joint_coe)) True
         \<and> distinct (map set (ppt_partitions (nrows joint_coe)))
         \<and> set ` set (ppt_partitions (nrows joint_coe)) =
             {S. S \<subseteq> {0..<2 * nrows joint_coe - 2} \<and> 1 \<le> card S \<and> card S \<le> nrows joint_coe}
         \<and> (\<forall>p \<in> set (ppt_partitions (nrows joint_coe)). sorted_wrt (<) p)"
proof (intro exI [of _ "bell_operator joint_coe a_coe b_coe a_val b_val"] conjI ballI)
  show "bell_objective joint_coe a_coe b_coe a_val b_val =
          Inr (bell_operator joint_coe a_coe b_coe a_val b_val)"
    using bell_objective_valid [OF assms] by (simp add: bell_operator_def)
  show "snd (bell_inequality_max solver joint_coe a_coe b_coe a_val b_val calls) =
             calls @
             [mosek_call
               \<lparr>prob_objective =
                  Maximize (Trace (MatMul (bell_Z (nrows joint_coe))
                    (Constant (bell_operator joint_coe a_coe b_coe a_val b_val)))),
                prob_constraints =
                  [Equals (Trace (bell_W (nrows joint_coe))) (Scalar 1),
                   PSD (bell_W (nrows joint_coe))]
                  @ map (\<lambda>S. PSD (PartialTranspose (bell_W (nrows joint_coe)) S
                                    (4 # replicate (2 * (nrows joint_coe - 1)) 2)))
                      (ppt_partitions (nrows joint_coe))\<rparr>]"
    by (simp add: bell_inequality_max_valid [OF assms] bell_call_def bell_problem_def
        bell_constraints_eq)
  show "bell_W (nrows joint_coe) =
          Variable (2 ^ (2 * nrows joint_coe)) (2 ^ (2 * nrows joint_coe)) True"
    by (simp add: bell_W_def)
  show "distinct (map set (ppt_partitions (nrows joint_coe)))"
    by (rule distinct_ppt_partitions)
  show "set ` set (ppt_partitions (nrows joint_coe)) =
          {S. S \<subseteq> {0..<2 * nrows joint_coe - 2} \<and> 1 \<le> card S \<and> card S \<le> nrows joint_coe}"
    by (rule set_ppt_partitions)
  show "sorted_wrt (<) p" if "p \<in> set (ppt_partitions (nrows joint_coe))" for p
    using that by (rule sorted_ppt_partitions)
qed

text \<open>
  Witness for C3: the CHSH coefficients, \<open>m = 2\<close>. The subsets of \<open>{0, 1}\<close> of size 1 or 2
  are \<open>{0}\<close>, \<open>{1}\<close> and \<open>{0, 1}\<close>, so the problem has five constraints.
\<close>

theorem bell_sdp_one_constraint_per_subset_witness:
  "bell_valid chsh [Int64 0, Int64 0] [Int64 0, Int64 0] [Int64 1, Int64 (- 1)] [Int64 1, Int64 (- 1)]
   \<and> (\<exists>obj_mat. snd (bell_inequality_max always_optimal chsh [Int64 0, Int64 0] [Int64 0, Int64 0] [Int64 1, Int64 (- 1)] [Int64 1, Int64 (- 1)] []) =
        [mosek_call
          \<lparr>prob_objective = Maximize (Trace (MatMul (bell_Z 2) (Constant obj_mat))),
           prob_constraints =
             [Equals (Trace (Variable 16 16 True)) (Scalar 1),
              PSD (Variable 16 16 True),
              PSD (PartialTranspose (Variable 16 16 True) [0] [4, 2, 2]),
              PSD (PartialTranspose (Variable 16 16 True) [1] [4, 2, 2]),
              PSD (PartialTranspose (Variable 16 16 True) [0, 1] [4, 2, 2])]\<rparr>])"
proof -
  have m: "nrows chsh = 2"
    by (simp add: chsh_def)
  have W: "bell_W 2 = Variable 16 16 True"
    by (simp add: bell_W_def)
  have dims: "4 # replicate (2 * (2 - 1)) (2::nat) = [4, 2, 2]"
    by (simp add: numeral_2_eq_2)
  from bell_sdp_one_constraint_per_subset [OF chsh_valid, of always_optimal "[]"]
  obtain obj_mat where
    "snd (bell_inequality_max always_optimal chsh [Int64 0, Int64 0] [Int64 0, Int64 0] [Int64 1, Int64 (- 1)] [Int64 1, Int64 (- 1)] []) =
       [] @
       [mosek_call
         \<lparr>prob_objective = Maximize (Trace (MatMul (bell_Z (nrows chsh)) (Constant obj_mat))),
          prob_constraints =
            [Equals (Trace (bell_W (nrows chsh))) (Scalar 1), PSD (bell_W (nrows chsh))]
            @ map (\<lambda>S. PSD (PartialTranspose (bell_W (nrows chsh)) S
                              (4 # replicate (2 * (nrows chsh - 1)) 2)))
                (ppt_partitions (nrows chsh))\<rparr>]"
    by blast
  then have "snd (bell_inequality_max always_optimal chsh [Int64 0, Int64 0] [Int64 0, Int64 0] [Int64 1, Int64 (- 1)] [Int64 1, Int64 (- 1)] []) =
        [mosek_call
          \<lparr>prob_objective = Maximize (Trace (MatMul (bell_Z 2) (Constant obj_mat))),
           prob_constraints =
             [Equals (Trace (Variable 16 16 True)) (Scalar 1),
              PSD (Variable 16 16 True),
              PSD (PartialTranspose (Variable 16 16 True) [0] [4, 2, 2]),
              PSD (PartialTranspose (Variable 16 16 True) [1] [4, 2, 2]),
              PSD (PartialTranspose (Variable 16 16 True) [0, 1] [4, 2, 2])]\<rparr>]"
    unfolding m ppt_partitions_two W dims by simp
  then show ?thesis
    using chsh_valid by blast
qed

text \<open>
  Claim C7. \<^verbatim>\<open>bell_inequality_max\<close> raises the \<^verbatim>\<open>ValueError\<close> of line 113 exactly when
  \<open>a_val\<close> or \<open>b_val\<close> has a length other than 2, and then no solver call has been made.
  When both have length 2 the function goes on: the only other exception is an
  \<^verbatim>\<open>IndexError\<close> of a coefficient read, and on a valid input the solver is called once.
\<close>

theorem bell_two_outcome_check:
  "(fst (bell_inequality_max solver joint_coe a_coe b_coe a_val b_val calls) =
      Inl (ValueError
        ''This script is only capable of handling Bell inequalities with two outcomes.'')
    \<longleftrightarrow> length a_val \<noteq> 2 \<or> length b_val \<noteq> 2)
   \<and> (length a_val \<noteq> 2 \<or> length b_val \<noteq> 2 \<longrightarrow>
        snd (bell_inequality_max solver joint_coe a_coe b_coe a_val b_val calls) = calls)
   \<and> (length a_val = 2 \<and> length b_val = 2 \<longrightarrow>
        bell_inequality_max solver joint_coe a_coe b_coe a_val b_val calls =
          (case bell_objective joint_coe a_coe b_coe a_val b_val of
             Inl e \<Rightarrow> (Inl IndexError, calls)
           | Inr obj_mat \<Rightarrow>
               (Inr (sol_value (solver (mosek_call (bell_problem (nrows joint_coe) obj_mat)))),
                calls @ [mosek_call (bell_problem (nrows joint_coe) obj_mat)])))
   \<and> (bell_valid joint_coe a_coe b_coe a_val b_val \<longrightarrow>
        length (snd (bell_inequality_max solver joint_coe a_coe b_coe a_val b_val calls))
          = length calls + 1)"
proof -
  have err: "bell_objective joint_coe a_coe b_coe a_val b_val = Inl e \<Longrightarrow> e = IndexError" for e
    by (rule bell_objective_error)
  have go_on: "bell_inequality_max solver joint_coe a_coe b_coe a_val b_val calls =
          (case bell_objective joint_coe a_coe b_coe a_val b_val of
             Inl e \<Rightarrow> (Inl IndexError, calls)
           | Inr obj_mat \<Rightarrow>
               (Inr (sol_value (solver (mosek_call (bell_problem (nrows joint_coe) obj_mat)))),
                calls @ [mosek_call (bell_problem (nrows joint_coe) obj_mat)]))"
    if "length a_val = 2 \<and> length b_val = 2"
    using that err by (auto simp: bell_inequality_max_def Let_def split: sum.splits)
  have raise: "bell_inequality_max solver joint_coe a_coe b_coe a_val b_val calls =
      (Inl (ValueError
        ''This script is only capable of handling Bell inequalities with two outcomes.''), calls)"
    if "length a_val \<noteq> 2 \<or> length b_val \<noteq> 2"
    using that by (auto simp: bell_inequality_max_def Let_def)
  have "fst (bell_inequality_max solver joint_coe a_coe b_coe a_val b_val calls) \<noteq>
      Inl (ValueError
        ''This script is only capable of handling Bell inequalities with two outcomes.'')"
    if "length a_val = 2 \<and> length b_val = 2"
    unfolding go_on [OF that] by (simp split: sum.splits)
  moreover have "length (snd (bell_inequality_max solver joint_coe a_coe b_coe a_val b_val calls))
          = length calls + 1"
    if "bell_valid joint_coe a_coe b_coe a_val b_val"
    by (simp add: bell_inequality_max_valid [OF that])
  ultimately show ?thesis
    using go_on raise by (intro conjI impI iffI; (simp; fail | blast))
qed

text \<open>
  Witness for C7: an \<open>a_val\<close> with three entries is refused with no solver call; with two
  entries on each side the solver is called once and its value is returned.
\<close>

theorem bell_two_outcome_check_witness:
  "bell_inequality_max always_optimal chsh [Int64 0, Int64 0] [Int64 0, Int64 0] [Int64 1, Int64 0, Int64 (- 1)] [Int64 1, Int64 (- 1)] [] =
     (Inl (ValueError
        ''This script is only capable of handling Bell inequalities with two outcomes.''), [])
   \<and> fst (bell_inequality_max always_optimal chsh [Int64 0, Int64 0] [Int64 0, Int64 0] [Int64 1, Int64 (- 1)] [Int64 1, Int64 (- 1)] [])
       = Inr (Finite 0)
   \<and> length (snd (bell_inequality_max always_optimal chsh [Int64 0, Int64 0] [Int64 0, Int64 0] [Int64 1, Int64 (- 1)] [Int64 1, Int64 (- 1)] []))
       = 1"
proof -
  have bad: "length [Int64 1, Int64 0, Int64 (- 1)] \<noteq> 2 \<or> length [Int64 1, Int64 (- 1)] \<noteq> 2"
    by simp
  have good: "length [Int64 1, Int64 (- 1)] = 2 \<and> length [Int64 1, Int64 (- 1)] = 2"
    by simp
  have obj: "bell_objective chsh [Int64 0, Int64 0] [Int64 0, Int64 0] [Int64 1, Int64 (- 1)] [Int64 1, Int64 (- 1)]
               = Inr (bell_operator chsh [Int64 0, Int64 0] [Int64 0, Int64 0] [Int64 1, Int64 (- 1)] [Int64 1, Int64 (- 1)])"
    using bell_objective_valid [OF chsh_valid] by (simp add: bell_operator_def)
  have "fst (bell_inequality_max always_optimal chsh [Int64 0, Int64 0] [Int64 0, Int64 0] [Int64 1, Int64 0, Int64 (- 1)] [Int64 1, Int64 (- 1)] []) =
      Inl (ValueError
        ''This script is only capable of handling Bell inequalities with two outcomes.'')"
    "snd (bell_inequality_max always_optimal chsh [Int64 0, Int64 0] [Int64 0, Int64 0] [Int64 1, Int64 0, Int64 (- 1)] [Int64 1, Int64 (- 1)] []) = []"
    using bell_two_outcome_check [of always_optimal chsh "[Int64 0, Int64 0]" "[Int64 0, Int64 0]" "[Int64 1, Int64 0, Int64 (- 1)]"
        "[Int64 1, Int64 (- 1)]" "[]"] bad
    by blast+
  moreover have "bell_inequality_max always_optimal chsh [Int64 0, Int64 0] [Int64 0, Int64 0] [Int64 1, Int64 (- 1)] [Int64 1, Int64 (- 1)] [] =
          (case bell_objective chsh [Int64 0, Int64 0] [Int64 0, Int64 0] [Int64 1, Int64 (- 1)] [Int64 1, Int64 (- 1)] of
             Inl e \<Rightarrow> (Inl IndexError, [])
           | Inr obj_mat \<Rightarrow>
               (Inr (sol_value (always_optimal (mosek_call (bell_problem (nrows chsh) obj_mat)))),
                [] @ [mosek_call (bell_problem (nrows chsh) obj_mat)]))"
    using bell_two_outcome_check [of always_optimal chsh "[Int64 0, Int64 0]" "[Int64 0, Int64 0]" "[Int64 1, Int64 (- 1)]"
        "[Int64 1, Int64 (- 1)]" "[]"] good
    by blast
  ultimately show ?thesis
    by (simp add: obj always_optimal_def prod_eq_iff)
qed

text \<open>
  Claim C1, as amended. For a valid input \<^verbatim>\<open>bell_inequality_max\<close> makes one MOSEK call
  and returns the value the solver reports for it, whatever status the solver reports:
  the status is never read, so two solvers that report the same values give the same
  result. Under an optimal status the returned value is the optimal objective value the
  solver reports; under any other status a value is returned all the same.
\<close>

theorem bell_returns_reported_value:
  assumes "bell_valid joint_coe a_coe b_coe a_val b_val"
  shows "\<exists>call. call_solver call = ''MOSEK''
         \<and> bell_inequality_max solver joint_coe a_coe b_coe a_val b_val calls =
             (Inr (sol_value (solver call)), calls @ [call])
         \<and> (\<forall>solver'. sol_value (solver' call) = sol_value (solver call) \<longrightarrow>
               bell_inequality_max solver' joint_coe a_coe b_coe a_val b_val calls =
               bell_inequality_max solver joint_coe a_coe b_coe a_val b_val calls)"
proof (intro exI [of _ "bell_call joint_coe a_coe b_coe a_val b_val"] conjI allI impI)
  show "call_solver (bell_call joint_coe a_coe b_coe a_val b_val) = ''MOSEK''"
    by (simp add: bell_call_def mosek_call_def)
  show "bell_inequality_max solver joint_coe a_coe b_coe a_val b_val calls =
          (Inr (sol_value (solver (bell_call joint_coe a_coe b_coe a_val b_val))),
           calls @ [bell_call joint_coe a_coe b_coe a_val b_val])"
    by (rule bell_inequality_max_valid [OF assms])
  show "bell_inequality_max solver' joint_coe a_coe b_coe a_val b_val calls =
          bell_inequality_max solver joint_coe a_coe b_coe a_val b_val calls"
    if "sol_value (solver' (bell_call joint_coe a_coe b_coe a_val b_val)) =
        sol_value (solver (bell_call joint_coe a_coe b_coe a_val b_val))" for solver'
    using that by (simp add: bell_inequality_max_valid [OF assms])
qed

text \<open>
  Witness for the amended C1: with the solver that reports an inaccurate optimum the
  value \<open>1/4\<close> is returned after one call.
\<close>

theorem bell_returns_reported_value_witness:
  "bell_valid chsh [Int64 0, Int64 0] [Int64 0, Int64 0] [Int64 1, Int64 (- 1)] [Int64 1, Int64 (- 1)]
   \<and> fst (bell_inequality_max inaccurate_solver chsh [Int64 0, Int64 0] [Int64 0, Int64 0] [Int64 1, Int64 (- 1)] [Int64 1, Int64 (- 1)] [])
       = Inr (Finite (1 / 4))
   \<and> length (snd (bell_inequality_max inaccurate_solver chsh [Int64 0, Int64 0] [Int64 0, Int64 0] [Int64 1, Int64 (- 1)] [Int64 1, Int64 (- 1)] []))
       = 1"
proof -
  from bell_returns_reported_value [OF chsh_valid, of inaccurate_solver "[]"]
  obtain call where
    "bell_inequality_max inaccurate_solver chsh [Int64 0, Int64 0] [Int64 0, Int64 0] [Int64 1, Int64 (- 1)] [Int64 1, Int64 (- 1)] [] =
       (Inr (sol_value (inaccurate_solver call)), [] @ [call])"
    by blast
  then show ?thesis
    using chsh_valid by (simp add: inaccurate_solver_def)
qed

text \<open>
  Counterexample to C1 as stated: on the valid CHSH input, a solver that never reports
  \<^verbatim>\<open>OPTIMAL\<close> (status \<^verbatim>\<open>optimal_inaccurate\<close> with value \<open>1/4\<close>, or status \<^verbatim>\<open>infeasible\<close>
  with value \<open>-inf\<close>) does not make \<^verbatim>\<open>bell_inequality_max\<close> fail: the reported value is
  returned.
\<close>

theorem bell_nonoptimal_status_counterexample:
  "bell_valid chsh [Int64 0, Int64 0] [Int64 0, Int64 0] [Int64 1, Int64 (- 1)] [Int64 1, Int64 (- 1)]
   \<and> (\<forall>call. sol_status (inaccurate_solver call) \<noteq> OPTIMAL)
   \<and> bell_inequality_max inaccurate_solver chsh [Int64 0, Int64 0] [Int64 0, Int64 0] [Int64 1, Int64 (- 1)] [Int64 1, Int64 (- 1)] [] =
       (Inr (Finite (1 / 4)), [bell_call chsh [Int64 0, Int64 0] [Int64 0, Int64 0] [Int64 1, Int64 (- 1)] [Int64 1, Int64 (- 1)]])
   \<and> (\<forall>call. sol_status (infeasible_solver call) \<noteq> OPTIMAL)
   \<and> bell_inequality_max infeasible_solver chsh [Int64 0, Int64 0] [Int64 0, Int64 0] [Int64 1, Int64 (- 1)] [Int64 1, Int64 (- 1)] [] =
       (Inr NegInf, [bell_call chsh [Int64 0, Int64 0] [Int64 0, Int64 0] [Int64 1, Int64 (- 1)] [Int64 1, Int64 (- 1)]])"
  using chsh_valid
  by (simp add: bell_inequality_max_valid inaccurate_solver_def infeasible_solver_def)

end
